theory Spec2Isabelle
  imports Main "HOL-Library.Sublist" "HOL-Library.Signed_Division"
begin

section \<open>Go strings: the library functions the sources call\<close>

text \<open>
  A Go \<^verbatim>\<open>string\<close> is a sequence of bytes; it is modelled as \<^typ>\<open>string\<close> (a list of
  8-bit characters). The functions of package \<^verbatim>\<open>strings\<close> that the sources call are
  written after the library's own loops. The sources call them with the constant, non-empty,
  ASCII separators \<^verbatim>\<open>";;"\<close>, \<^verbatim>\<open>"||"\<close> and \<^verbatim>\<open>"\""\<close>; the library's branch for an
  empty separator (which walks UTF-8 runes) is modelled on single-byte characters.
\<close>

abbreviation dquote :: char where "dquote \<equiv> CHR 0x22"
abbreviation comma :: char where "comma \<equiv> CHR 0x2C"
abbreviation LF :: char where "LF \<equiv> CHR 0x0A"
abbreviation CR :: char where "CR \<equiv> CHR 0x0D"

text \<open>\<^verbatim>\<open>strings.Index(s, substr)\<close>: the first byte offset at which \<^verbatim>\<open>substr\<close> occurs,
  \<open>None\<close> for Go's \<^verbatim>\<open>-1\<close>.\<close>

fun strings_Index :: "string \<Rightarrow> string \<Rightarrow> nat option" where
  "strings_Index [] substr = (if substr = [] then Some 0 else None)"
| "strings_Index (c # cs) substr =
     (if prefix substr (c # cs) then Some 0 else map_option Suc (strings_Index cs substr))"

lemma strings_Index_bound:
  "strings_Index s substr = Some i \<Longrightarrow> i + length substr \<le> length s"
proof (induction s arbitrary: i)
  case Nil
  then show ?case by (simp split: if_splits)
next
  case (Cons c cs)
  show ?case
  proof (cases "prefix substr (c # cs)")
    case True
    with Cons.prems have "i = 0" by simp
    moreover from True have "length substr \<le> length (c # cs)"
      by (rule prefix_length_le)
    ultimately show ?thesis by simp
  next
    case False
    with Cons.prems obtain j where "strings_Index cs substr = Some j" "i = Suc j"
      by auto
    with Cons.IH show ?thesis by fastforce
  qed
qed

text \<open>\<^verbatim>\<open>strings.Count(s, substr)\<close>: the number of non-overlapping occurrences, found by
  repeated \<^verbatim>\<open>Index\<close> on the rest of the string.\<close>

function strings_Count :: "string \<Rightarrow> string \<Rightarrow> nat" where
  "strings_Count s substr =
     (if substr = [] then length s + 1
      else (case strings_Index s substr of
              None \<Rightarrow> 0
            | Some i \<Rightarrow> 1 + strings_Count (drop (i + length substr) s) substr))"
  by pat_completeness auto
termination
proof (relation "measure (\<lambda>(s, substr). length s)")
  show "wf (measure (\<lambda>(s, substr). length s))" by simp
next
  fix s substr :: string and i :: nat
  assume ne: "substr \<noteq> []" and idx: "strings_Index s substr = Some i"
  from idx have "i + length substr \<le> length s"
    by (rule strings_Index_bound)
  moreover from ne have "0 < length substr"
    by simp
  ultimately have "length s - (i + length substr) < length s"
    by arith
  then show "((drop (i + length substr) s, substr), (s, substr))
               \<in> measure (\<lambda>(s, substr). length s)"
    by simp
qed

declare strings_Count.simps [simp del]

text \<open>\<^verbatim>\<open>strings.ContainsAny(s, chars)\<close> for ASCII \<^verbatim>\<open>chars\<close>: some byte of \<^verbatim>\<open>s\<close> is one
  of them.\<close>

definition strings_ContainsAny :: "string \<Rightarrow> string \<Rightarrow> bool" where
  "strings_ContainsAny s chars = list_ex (\<lambda>c. c \<in> set chars) s"

text \<open>The loop of \<^verbatim>\<open>strings.Replace\<close>: \<^verbatim>\<open>n\<close> times, copy up to the next occurrence of
  \<^verbatim>\<open>old\<close>, write \<^verbatim>\<open>new\<close>, and go on behind the occurrence; then copy the rest.\<close>

fun Replace_loop :: "string \<Rightarrow> string \<Rightarrow> string \<Rightarrow> nat \<Rightarrow> string" where
  "Replace_loop s old new 0 = s"
| "Replace_loop s old new (Suc k) =
     (case strings_Index s old of
        None \<Rightarrow> s
      | Some j \<Rightarrow> take j s @ new @ Replace_loop (drop (j + length old) s) old new k)"

text \<open>\<^verbatim>\<open>strings.Replace(s, old, new, n)\<close>; a negative \<^verbatim>\<open>n\<close> replaces every occurrence.\<close>

definition strings_Replace :: "string \<Rightarrow> string \<Rightarrow> string \<Rightarrow> int \<Rightarrow> string" where
  "strings_Replace s old new n =
     (if old = new \<or> n = 0 then s
      else let m = strings_Count s old in
        if m = 0 then s
        else Replace_loop s old new (if n < 0 \<or> int m < n then m else nat n))"

definition strings_ReplaceAll :: "string \<Rightarrow> string \<Rightarrow> string \<Rightarrow> string" where
  "strings_ReplaceAll s old new = strings_Replace s old new (- 1)"

text \<open>The loop of \<^verbatim>\<open>strings.genSplit\<close>: at most \<^verbatim>\<open>n\<close> times, cut the string at the next
  occurrence of \<^verbatim>\<open>sep\<close>; the rest is the last piece.\<close>

fun genSplit_loop :: "string \<Rightarrow> string \<Rightarrow> nat \<Rightarrow> nat \<Rightarrow> string list" where
  "genSplit_loop s sep sepSave 0 = [s]"
| "genSplit_loop s sep sepSave (Suc k) =
     (case strings_Index s sep of
        None \<Rightarrow> [s]
      | Some m \<Rightarrow> take (m + sepSave) s # genSplit_loop (drop (m + length sep) s) sep sepSave k)"

text \<open>\<^verbatim>\<open>explode\<close> (only reached with an empty separator): one piece per character, the
  last piece holding what is left when \<^verbatim>\<open>n\<close> pieces are reached.\<close>

fun explode :: "string \<Rightarrow> nat \<Rightarrow> string list" where
  "explode s 0 = []"
| "explode [] (Suc k) = []"
| "explode (c # cs) (Suc k) = (if k = 0 \<or> cs = [] then [c # cs] else [c] # explode cs k)"

definition genSplit :: "string \<Rightarrow> string \<Rightarrow> nat \<Rightarrow> int \<Rightarrow> string list" where
  "genSplit s sep sepSave n =
     (if n = 0 then []
      else if sep = [] then explode s (if n < 0 then length s else nat n)
      else let n1 = (if n < 0 then int (strings_Count s sep) + 1 else n);
               n2 = (if n1 > int (length s) + 1 then int (length s) + 1 else n1)
           in genSplit_loop s sep sepSave (nat (n2 - 1)))"

definition strings_Split :: "string \<Rightarrow> string \<Rightarrow> string list" where
  "strings_Split s sep = genSplit s sep 0 (- 1)"

definition strings_SplitN :: "string \<Rightarrow> string \<Rightarrow> int \<Rightarrow> string list" where
  "strings_SplitN s sep n = genSplit s sep 0 n"

definition strings_HasPrefix :: "string \<Rightarrow> string \<Rightarrow> bool" where
  "strings_HasPrefix s pre = prefix pre s"

definition strings_TrimPrefix :: "string \<Rightarrow> string \<Rightarrow> string" where
  "strings_TrimPrefix s pre = (if strings_HasPrefix s pre then drop (length pre) s else s)"

definition strings_Contains :: "string \<Rightarrow> string \<Rightarrow> bool" where
  "strings_Contains s substr = (strings_Index s substr \<noteq> None)"

text \<open>
  \<^verbatim>\<open>strings.ToLower\<close> and \<^verbatim>\<open>strings.TrimSpace\<close> on ASCII text: the letters \<^verbatim>\<open>A\<close> to
  \<^verbatim>\<open>Z\<close> are mapped to lower case, and the white space cut off both ends is tab, line feed,
  vertical tab, form feed, carriage return and space. (On text with bytes above 127 the
  library also applies the Unicode case and space tables; bytes above 127 are left as they
  are here.)
\<close>

definition toLower_char :: "char \<Rightarrow> char" where
  "toLower_char c =
     (if 65 \<le> (of_char c :: int) \<and> (of_char c :: int) \<le> 90
      then char_of ((of_char c :: int) + 32) else c)"

definition strings_ToLower :: "string \<Rightarrow> string" where
  "strings_ToLower s = map toLower_char s"

definition isSpace :: "char \<Rightarrow> bool" where
  "isSpace c \<longleftrightarrow> (of_char c :: int) \<in> {9, 10, 11, 12, 13, 32}"

definition strings_TrimSpace :: "string \<Rightarrow> string" where
  "strings_TrimSpace s = rev (dropWhile isSpace (rev (dropWhile isSpace s)))"

subsection \<open>Parsing integers\<close>

datatype NumError = ErrSyntax | ErrRange

text \<open>\<^verbatim>\<open>strconv.ParseUint(s, 10, 64)\<close>: decimal digits only; a value that does not fit 64
  bits gives the largest value and \<^verbatim>\<open>ErrRange\<close>. The accumulator is a \<^verbatim>\<open>uint64\<close>, its
  wrap-around written as \<open>mod 2 ^ 64\<close>.\<close>

definition isDigit :: "char \<Rightarrow> bool" where
  "isDigit c \<longleftrightarrow> 48 \<le> (of_char c :: int) \<and> (of_char c :: int) \<le> 57"

definition maxUint64 :: int where
  "maxUint64 = 2 ^ 64 - 1"

fun ParseUint_loop :: "string \<Rightarrow> int \<Rightarrow> int \<times> NumError option" where
  "ParseUint_loop [] n = (n, None)"
| "ParseUint_loop (c # cs) n =
     (if \<not> isDigit c then (0, Some ErrSyntax)
      else let d = (of_char c :: int) - 48 in
        if n \<ge> maxUint64 div 10 + 1 then (maxUint64, Some ErrRange)
        else let n' = n * 10;
                 n1 = (n' + d) mod 2 ^ 64
             in if n1 < n' \<or> n1 > maxUint64 then (maxUint64, Some ErrRange)
                else ParseUint_loop cs n1)"

definition strconv_ParseUint :: "string \<Rightarrow> int \<times> NumError option" where
  "strconv_ParseUint s = (if s = [] then (0, Some ErrSyntax) else ParseUint_loop s 0)"

text \<open>\<^verbatim>\<open>strconv.ParseInt(s, 10, 64)\<close>: an optional sign, then \<^verbatim>\<open>ParseUint\<close>; a syntax error
  gives 0, a value out of range gives the nearest \<^verbatim>\<open>int64\<close>.\<close>

definition strconv_ParseInt :: "string \<Rightarrow> int \<times> NumError option" where
  "strconv_ParseInt s0 =
     (if s0 = [] then (0, Some ErrSyntax)
      else let neg = (hd s0 = CHR ''-'');
               s = (if hd s0 = CHR ''+'' \<or> hd s0 = CHR ''-'' then tl s0 else s0);
               (un, err) = strconv_ParseUint s;
               cutoff = (2 :: int) ^ 63
           in if err = Some ErrSyntax then (0, err)
              else if \<not> neg \<and> un \<ge> cutoff then (cutoff - 1, Some ErrRange)
              else if neg \<and> un > cutoff then (- cutoff, Some ErrRange)
              else (if neg then - un else un, None))"

text \<open>\<^verbatim>\<open>strings.Join(elems, sep)\<close>.\<close>

fun strings_Join :: "string list \<Rightarrow> string \<Rightarrow> string" where
  "strings_Join [] sep = []"
| "strings_Join [x] sep = x"
| "strings_Join (x # y # ys) sep = x @ sep @ strings_Join (y # ys) sep"

section \<open>CSV export: field escaping\<close>

text \<open>\<^verbatim>\<open>csvEscape\<close> wraps a field in quotes if it contains commas, quotes, or newlines, and
  doubles any internal quotes.\<close>

definition csvEscape :: "string \<Rightarrow> string" where
  "csvEscape s =
     (if strings_ContainsAny s [comma, dquote, LF, CR]
      then [dquote] @ strings_ReplaceAll s [dquote] [dquote, dquote] @ [dquote]
      else s)"

section \<open>Time values and the Apple epoch\<close>

text \<open>
  Go's \<^verbatim>\<open>int64\<close> values are modelled as \<^typ>\<open>int\<close>; Go's \<^verbatim>\<open>/\<close> and \<^verbatim>\<open>%\<close> on integers
  truncate towards zero, which is \<open>sdiv\<close> and \<open>smod\<close>. For an \<^verbatim>\<open>int64\<close> argument no
  operation of \<^verbatim>\<open>appleNanosToTime\<close> leaves the \<^verbatim>\<open>int64\<close> range (lemma
  \<open>appleNanosToTime_no_overflow\<close> below), so no wrap-around is written out.

  A \<^verbatim>\<open>time.Time\<close> is an instant: the seconds elapsed since January 1 of year 1, 00:00:00 UTC
  (the library's internal epoch), the nanoseconds within the second, and a location.
  \<^verbatim>\<open>time.Time{}\<close> is the zero time; \<^verbatim>\<open>time.Unix(sec, nsec)\<close> is the instant \<^verbatim>\<open>sec\<close>
  seconds and \<^verbatim>\<open>nsec\<close> nanoseconds after January 1, 1970 UTC, in the local location.
\<close>

definition appleEpochOffset :: int where
  "appleEpochOffset = 978307200"

datatype Location = UTC | Local

record Time =
  t_sec :: int
  t_nsec :: int
  t_loc :: Location

definition unixToInternal :: int where
  "unixToInternal = (1969 * 365 + 1969 div 4 - 1969 div 100 + 1969 div 400) * 86400"

definition Time_zero :: Time where
  "Time_zero = \<lparr>t_sec = 0, t_nsec = 0, t_loc = UTC\<rparr>"

text \<open>\<^verbatim>\<open>t.IsZero()\<close>, \<^verbatim>\<open>t.Unix()\<close> and \<^verbatim>\<open>t.UnixNano()\<close> (the latter without its
  \<^verbatim>\<open>int64\<close> wrap-around, as a mathematical integer).\<close>

definition Time_IsZero :: "Time \<Rightarrow> bool" where
  "Time_IsZero t \<longleftrightarrow> t_sec t = 0 \<and> t_nsec t = 0"

definition Time_Unix :: "Time \<Rightarrow> int" where
  "Time_Unix t = t_sec t - unixToInternal"

definition Time_UnixNano :: "Time \<Rightarrow> int" where
  "Time_UnixNano t = (t_sec t - unixToInternal) * 1000000000 + t_nsec t"

text \<open>\<^verbatim>\<open>time.Unix(sec, nsec)\<close>: nanoseconds outside \<open>[0, 999999999]\<close> are carried into the
  seconds first.\<close>

definition time_Unix :: "int \<Rightarrow> int \<Rightarrow> Time" where
  "time_Unix sec nsec =
     (let (sec1, nsec1) =
            (if nsec < 0 \<or> nsec \<ge> 1000000000
             then (let n = nsec sdiv 1000000000;
                       sec' = sec + n;
                       nsec' = nsec - n * 1000000000
                   in if nsec' < 0 then (sec' - 1, nsec' + 1000000000) else (sec', nsec'))
             else (sec, nsec))
      in \<lparr>t_sec = sec1 + unixToInternal, t_nsec = nsec1, t_loc = Local\<rparr>)"

definition appleNanosToTime :: "int \<Rightarrow> Time" where
  "appleNanosToTime nanos =
     (if nanos = 0 then Time_zero
      else let unixSeconds = nanos sdiv 1000000000 + appleEpochOffset;
               remainder = nanos smod 1000000000
           in time_Unix unixSeconds remainder)"

definition int64 :: "int \<Rightarrow> bool" where
  "int64 n \<longleftrightarrow> - (2 ^ 63) \<le> n \<and> n < 2 ^ 63"

section \<open>Attachments: labels and the packed encoding\<close>

record AttachmentInfo =
  TypeLabel :: string
  Filename :: string
  Size :: int

text \<open>\<^verbatim>\<open>attachmentLabel\<close> returns a human-friendly label from a mime type string.\<close>

definition attachmentLabel :: "string \<Rightarrow> string" where
  "attachmentLabel mime0 =
     (let mime = strings_TrimSpace (strings_ToLower mime0) in
      if strings_HasPrefix mime ''image/'' then
        (let sub = strings_TrimPrefix mime ''image/'' in
         if sub = ''jpeg'' \<or> sub = ''jpg'' then ''photo''
         else if sub = ''png'' then ''image''
         else if sub = ''heic'' \<or> sub = ''heif'' then ''photo''
         else if sub = ''gif'' then ''GIF''
         else if sub = ''webp'' then ''image''
         else ''image'')
      else if strings_HasPrefix mime ''video/'' then ''video''
      else if strings_HasPrefix mime ''audio/'' then ''audio''
      else if mime = ''application/pdf'' then ''PDF''
      else if mime = ''text/vcard'' then ''contact card''
      else if mime = ''text/x-markdown'' then ''markdown''
      else if strings_Contains mime ''zip'' \<or> strings_Contains mime ''archive'' then ''archive''
      else if strings_Contains mime ''iwork-numbers'' then ''Numbers spreadsheet''
      else if strings_Contains mime ''iwork-pages'' then ''Pages document''
      else if strings_Contains mime ''iwork-keynote'' then ''Keynote presentation''
      else if mime = '''' then ''attachment''
      else ''file'')"

text \<open>
  \<^verbatim>\<open>parseAttachments\<close> splits a \<^verbatim>\<open>GROUP_CONCAT\<close> result into \<^verbatim>\<open>AttachmentInfo\<close> structs.
  Each attachment is separated by \<^verbatim>\<open>";;"\<close>, fields within by \<^verbatim>\<open>"||"\<close>.
  The body of the \<^verbatim>\<open>for\<close> loop is \<open>parseEntry\<close>: \<open>None\<close> where the source says
  \<^verbatim>\<open>continue\<close>. The loop appends to the slice \<^verbatim>\<open>attachments\<close>.
\<close>

definition parseEntry :: "string \<Rightarrow> AttachmentInfo option" where
  "parseEntry entry =
     (let fields = strings_SplitN entry ''||'' 3;
          mime = (if length fields > 0 then fields ! 0 else '''');
          name = (if length fields > 1 then fields ! 1 else '''');
          size = (if length fields > 2 then fst (strconv_ParseInt (fields ! 2)) else 0)
      in if mime = '''' \<and> name = '''' \<and> size = 0 then None
         else Some \<lparr>TypeLabel = attachmentLabel mime, Filename = name, Size = size\<rparr>)"

fun parseAttachments_loop :: "string list \<Rightarrow> AttachmentInfo list \<Rightarrow> AttachmentInfo list" where
  "parseAttachments_loop [] attachments = attachments"
| "parseAttachments_loop (entry # entries) attachments =
     (case parseEntry entry of
        None \<Rightarrow> parseAttachments_loop entries attachments
      | Some a \<Rightarrow> parseAttachments_loop entries (attachments @ [a]))"

definition parseAttachments :: "string \<Rightarrow> AttachmentInfo list" where
  "parseAttachments raw =
     (if raw = '''' then []
      else parseAttachments_loop (strings_Split raw '';;'') [])"

text \<open>
  The decoding rule in the words of the specification: an entry is split on the inner
  separator into at most three fields (content type, display name, byte size); a missing
  field counts as empty, a size that is missing or not a number as 0.
\<close>

definition entry_fields :: "string \<Rightarrow> string list" where
  "entry_fields entry = strings_SplitN entry ''||'' 3"

definition entry_mime :: "string \<Rightarrow> string" where
  "entry_mime entry = (case entry_fields entry of [] \<Rightarrow> '''' | mime # _ \<Rightarrow> mime)"

definition entry_name :: "string \<Rightarrow> string" where
  "entry_name entry = (case entry_fields entry of _ # name # _ \<Rightarrow> name | _ \<Rightarrow> '''')"

definition entry_size :: "string \<Rightarrow> int" where
  "entry_size entry =
     (case entry_fields entry of _ # _ # sz # _ \<Rightarrow> fst (strconv_ParseInt sz) | _ \<Rightarrow> 0)"

definition entry_is_empty :: "string \<Rightarrow> bool" where
  "entry_is_empty entry \<longleftrightarrow> entry_mime entry = '''' \<and> entry_name entry = '''' \<and> entry_size entry = 0"

definition entry_record :: "string \<Rightarrow> AttachmentInfo" where
  "entry_record entry =
     \<lparr>TypeLabel = attachmentLabel (entry_mime entry), Filename = entry_name entry,
      Size = entry_size entry\<rparr>"

section \<open>Byte counts as text\<close>

text \<open>
  \<^verbatim>\<open>fmt.Sprintf("%d", n)\<close>: the decimal digits of \<open>n\<close>, with a minus sign for a negative
  number.
\<close>

definition digit_char :: "int \<Rightarrow> char" where
  "digit_char d = char_of (48 + d)"

function itoa_nonneg :: "int \<Rightarrow> string" where
  "itoa_nonneg n =
     (if n < 10 then [digit_char n] else itoa_nonneg (n div 10) @ [digit_char (n mod 10)])"
  by pat_completeness auto
termination
  by (relation "measure nat") auto

declare itoa_nonneg.simps [simp del]

definition Sprintf_d :: "int \<Rightarrow> string" where
  "Sprintf_d n = (if n < 0 then CHR ''-'' # itoa_nonneg (- n) else itoa_nonneg n)"

text \<open>
  \<^verbatim>\<open>float64(b)\<close> for an \<^verbatim>\<open>int64\<close> \<open>b\<close>: the nearest number with a 53-bit mantissa, ties
  to the even mantissa. The result is again an integer, and is kept as one. \<open>float64_shift a\<close>
  is the number of low bits of \<open>a\<close> that do not fit the mantissa (at most 11 for 64-bit
  values).
\<close>

function float64_shift :: "int \<Rightarrow> nat \<Rightarrow> nat" where
  "float64_shift a e = (if a < 2 ^ (53 + e) \<or> 11 \<le> e then e else float64_shift a (Suc e))"
  by pat_completeness auto
termination
  by (relation "measure (\<lambda>(a, e). 11 - e)") auto

declare float64_shift.simps [simp del]

text \<open>Rounding the fraction \<open>num / den\<close> (with \<open>den > 0\<close>) to the nearest integer, a tie to
  the even one.\<close>

definition round_half_even :: "int \<Rightarrow> int \<Rightarrow> int" where
  "round_half_even num den =
     (let q = num div den; r = num mod den
      in if 2 * r > den \<or> (2 * r = den \<and> odd q) then q + 1 else q)"

definition float64_of_int :: "int \<Rightarrow> int" where
  "float64_of_int b =
     (let e = float64_shift \<bar>b\<bar> 0
      in sgn b * round_half_even \<bar>b\<bar> (2 ^ e) * 2 ^ e)"

text \<open>
  \<open>Sprintf_1f x k\<close> is \<^verbatim>\<open>fmt.Sprintf("%.1f", x / float64(1<<k))\<close> for a non-negative
  \<^verbatim>\<open>float64\<close> \<open>x\<close> that is an integer. Dividing by a power of two is exact in binary floating
  point, and \<^verbatim>\<open>%.1f\<close> prints the exact value rounded to the nearest tenth, a tie to the even
  tenth: the integer part, a point, one digit.
\<close>

definition Sprintf_1f :: "int \<Rightarrow> nat \<Rightarrow> string" where
  "Sprintf_1f x k =
     (let tenths = round_half_even (10 * x) (2 ^ k)
      in itoa_nonneg (tenths div 10) @ ''.'' @ itoa_nonneg (tenths mod 10))"

definition formatBytes :: "int \<Rightarrow> string" where
  "formatBytes b =
     (if b \<ge> 2 ^ 30 then Sprintf_1f (float64_of_int b) 30 @ '' GB''
      else if b \<ge> 2 ^ 20 then Sprintf_1f (float64_of_int b) 20 @ '' MB''
      else if b \<ge> 2 ^ 10 then Sprintf_1f (float64_of_int b) 10 @ '' KB''
      else Sprintf_d b @ '' B'')"

section \<open>The message store\<close>

text \<open>
  The SQLite engine and the driver are outside the repository. The store is modelled by what
  the \<^verbatim>\<open>FROM \<dots> JOIN \<dots> GROUP BY m.ROWID\<close> part of the message queries computes before
  \<^verbatim>\<open>WHERE\<close>, \<^verbatim>\<open>ORDER BY\<close> and \<^verbatim>\<open>LIMIT\<close> are applied: one row for each message of each chat,
  with the \<^verbatim>\<open>COALESCE\<close>d columns the queries select. The column \<^verbatim>\<open>is_from_me\<close> may be
  \<^verbatim>\<open>NULL\<close> (\<open>None\<close>), which \<^verbatim>\<open>rows.Scan\<close> cannot store into a \<^verbatim>\<open>bool\<close>. \<open>db_fault\<close> is the
  error with which \<^verbatim>\<open>db.Query\<close> fails, if it does.
\<close>

definition messagesPageSize :: int where
  "messagesPageSize = 200"

datatype error = QueryError | ScanError | OtherError string

record Message =
  ROWID :: int
  Text :: string
  Date :: Time
  IsFromMe :: bool
  Sender :: string
  Service :: string
  Attachments :: "AttachmentInfo list"

record db_row =
  r_chat_id :: int
  r_ROWID :: int
  r_text :: string
  r_date :: int
  r_is_from_me :: "bool option"
  r_sender :: string
  r_service :: string
  r_attach :: string

record Store =
  db_rows :: "db_row list"
  db_fault :: "error option"

text \<open>
  The order of the results. \<^verbatim>\<open>GROUP BY m.ROWID\<close> produces the rows of a conversation in
  ascending id; \<^verbatim>\<open>ORDER BY m.date ASC\<close> sorts them by date and leaves rows of equal date in
  ascending id; \<^verbatim>\<open>ORDER BY m.date DESC\<close> gives the same rows in the opposite order, rows of
  equal date in descending id.
\<close>

definition date_order :: "db_row list \<Rightarrow> db_row list" where
  "date_order rows = sort_key r_date (sort_key r_ROWID rows)"

text \<open>
  The two page queries of \<^verbatim>\<open>FetchMessages\<close> (\<open>bound = None\<close>: no condition on the id;
  \<open>bound = Some c\<close>: \<^verbatim>\<open>m.ROWID < c\<close>) with \<^verbatim>\<open>ORDER BY m.date DESC LIMIT limit\<close>, and the query
  of \<^verbatim>\<open>FetchAllMessages\<close> with \<^verbatim>\<open>ORDER BY m.date ASC\<close>.
\<close>

definition query_page :: "Store \<Rightarrow> int \<Rightarrow> int option \<Rightarrow> int \<Rightarrow> error + db_row list" where
  "query_page st chatID bound limit =
     (case db_fault st of
        Some e \<Rightarrow> Inl e
      | None \<Rightarrow>
          Inr (take (nat limit)
                 (rev (date_order
                    (filter (\<lambda>r. r_chat_id r = chatID
                                  \<and> (case bound of None \<Rightarrow> True | Some c \<Rightarrow> r_ROWID r < c))
                       (db_rows st))))))"

definition query_all :: "Store \<Rightarrow> int \<Rightarrow> error + db_row list" where
  "query_all st chatID =
     (case db_fault st of
        Some e \<Rightarrow> Inl e
      | None \<Rightarrow> Inr (date_order (filter (\<lambda>r. r_chat_id r = chatID) (db_rows st))))"

text \<open>The body of the \<^verbatim>\<open>for rows.Next()\<close> loops: scan one row into a \<^verbatim>\<open>Message\<close>, or fail.\<close>

definition scan_message :: "db_row \<Rightarrow> error + Message" where
  "scan_message r =
     (case r_is_from_me r of
        None \<Rightarrow> Inl ScanError
      | Some from_me \<Rightarrow>
          Inr \<lparr>ROWID = r_ROWID r, Text = r_text r, Date = appleNanosToTime (r_date r),
               IsFromMe = from_me, Sender = r_sender r, Service = r_service r,
               Attachments = parseAttachments (r_attach r)\<rparr>)"

fun scan_rows :: "db_row list \<Rightarrow> Message list \<Rightarrow> error + Message list" where
  "scan_rows [] messages = Inr messages"
| "scan_rows (r # rows) messages =
     (case scan_message r of
        Inl e \<Rightarrow> Inl e
      | Inr msg \<Rightarrow> scan_rows rows (messages @ [msg]))"

definition FetchMessages :: "Store \<Rightarrow> int \<Rightarrow> int \<Rightarrow> int \<Rightarrow> error + Message list" where
  "FetchMessages st chatID cursor pageSize0 =
     (let pageSize = (if pageSize0 \<le> 0 then messagesPageSize else pageSize0) in
      case (if cursor = 0 then query_page st chatID None pageSize
            else query_page st chatID (Some cursor) pageSize) of
        Inl e \<Rightarrow> Inl e
      | Inr rows \<Rightarrow>
          (case scan_rows rows [] of
             Inl e \<Rightarrow> Inl e
           | Inr messages \<Rightarrow> Inr (rev messages)))"

definition FetchAllMessages :: "Store \<Rightarrow> int \<Rightarrow> error + Message list" where
  "FetchAllMessages st chatID =
     (case query_all st chatID of
        Inl e \<Rightarrow> Inl e
      | Inr rows \<Rightarrow> scan_rows rows [])"

text \<open>
  Paging as the specification describes it: fetch a page, starting from cursor 0; while the
  page is not empty, fetch again with the smallest id of the page as the cursor; put the
  pages together, oldest first. Nothing in this description bounds the number of pages, so
  the loop takes fuel and returns \<open>None\<close> when it runs out.
\<close>

fun concat_pages :: "nat \<Rightarrow> Store \<Rightarrow> int \<Rightarrow> int \<Rightarrow> int \<Rightarrow> (error + Message list) option" where
  "concat_pages 0 st chatID k cursor = None"
| "concat_pages (Suc fuel) st chatID k cursor =
     (case FetchMessages st chatID cursor k of
        Inl e \<Rightarrow> Some (Inl e)
      | Inr page \<Rightarrow>
          if page = [] then Some (Inr [])
          else (case concat_pages fuel st chatID k (Min (set (map ROWID page))) of
                  None \<Rightarrow> None
                | Some (Inl e) \<Rightarrow> Some (Inl e)
                | Some (Inr older) \<Rightarrow> Some (Inr (older @ page))))"

text \<open>The rows of one conversation, and the condition under which ids are in step with
  time: ids are unique in the conversation (the id is the primary key of the message table),
  none is 0, and a larger id never means an earlier date.\<close>

definition chat_rows :: "Store \<Rightarrow> int \<Rightarrow> db_row list" where
  "chat_rows st chatID = filter (\<lambda>r. r_chat_id r = chatID) (db_rows st)"

definition chronological_ids :: "db_row list \<Rightarrow> bool" where
  "chronological_ids rows \<longleftrightarrow>
     distinct (map r_ROWID rows)
     \<and> (\<forall>r \<in> set rows. r_ROWID r \<noteq> 0)
     \<and> (\<forall>r \<in> set rows. \<forall>r' \<in> set rows. r_ROWID r < r_ROWID r' \<longrightarrow> r_date r \<le> r_date r')"

text \<open>
  \<^verbatim>\<open>t.Before(u)\<close> on time values. A stored date 0 is decoded as the zero time, which lies
  before every other time; the decoded dates follow the stored ones unless a stored 0 stands
  beside a negative stored date.
\<close>

definition Time_Before :: "Time \<Rightarrow> Time \<Rightarrow> bool" where
  "Time_Before t u \<longleftrightarrow> t_sec t < t_sec u \<or> (t_sec t = t_sec u \<and> t_nsec t < t_nsec u)"

definition zero_date_apart :: "db_row list \<Rightarrow> bool" where
  "zero_date_apart rows \<longleftrightarrow>
     (list_ex (\<lambda>r. r_date r = 0) rows \<longrightarrow> list_all (\<lambda>r. 0 \<le> r_date r) rows)"

definition message_of :: "db_row \<Rightarrow> Message" where
  "message_of r =
     \<lparr>ROWID = r_ROWID r, Text = r_text r, Date = appleNanosToTime (r_date r),
      IsFromMe = (r_is_from_me r = Some True), Sender = r_sender r, Service = r_service r,
      Attachments = parseAttachments (r_attach r)\<rparr>"

text \<open>Small stores for the concrete checks below.\<close>

definition example_row :: "int \<Rightarrow> int \<Rightarrow> int \<Rightarrow> db_row" where
  "example_row chat rowid date =
     \<lparr>r_chat_id = chat, r_ROWID = rowid, r_text = ''hi'', r_date = date,
      r_is_from_me = Some True, r_sender = '''', r_service = ''SMS'', r_attach = ''''\<rparr>"

definition store_in_step :: Store where
  "store_in_step =
     \<lparr>db_rows = [example_row 1 1 10, example_row 1 2 20, example_row 2 3 5,
                 example_row 1 5 30, example_row 1 7 40, example_row 1 8 50],
      db_fault = None\<rparr>"

definition store_out_of_step :: Store where
  "store_out_of_step =
     \<lparr>db_rows = [example_row 1 1 20, example_row 1 2 10], db_fault = None\<rparr>"

definition store_equal_dates :: Store where
  "store_equal_dates =
     \<lparr>db_rows = [example_row 1 3 10, example_row 1 1 10, example_row 1 2 10], db_fault = None\<rparr>"

definition store_zero_id :: Store where
  "store_zero_id = \<lparr>db_rows = [example_row 1 0 10, example_row 1 1 20], db_fault = None\<rparr>"

definition store_zero_date :: Store where
  "store_zero_date = \<lparr>db_rows = [example_row 1 1 (- 5), example_row 1 2 0], db_fault = None\<rparr>"

text \<open>The page that a cursor selects from the rows of a conversation in the order of
  \<^verbatim>\<open>FetchAllMessages\<close>: the rows with an id below the cursor (all rows for cursor 0), and of
  these the last \<open>k\<close> (the last 200 when \<open>k\<close> is not positive).\<close>

definition page_of :: "db_row list \<Rightarrow> int \<Rightarrow> int \<Rightarrow> db_row list" where
  "page_of S cursor k =
     (let P = (if cursor = 0 then S else filter (\<lambda>r. r_ROWID r < cursor) S)
      in drop (length P - nat (if k \<le> 0 then 200 else k)) P)"

section \<open>The view coordinator\<close>

text \<open>
  The coordinator is the Bubble Tea \<^verbatim>\<open>model\<close> of \<^verbatim>\<open>model.go\<close> with its \<^verbatim>\<open>Update\<close> function.
  The widgets it embeds (list, viewport, text input) come from the \<^verbatim>\<open>bubbles\<close> library,
  the styling from \<^verbatim>\<open>lipgloss\<close>, names from the contact book. The widgets are records of
  the fields the coordinator reads and writes; what the libraries compute (a widget's reaction
  to a key, scrolling, the styled text of the messages, a contact's name) is not fixed here
  but passed in as a record \<open>L\<close> of functions, and every claim is proved for every \<open>L\<close>.
  The pointers \<^verbatim>\<open>store\<close> and \<^verbatim>\<open>contacts\<close> of the \<^verbatim>\<open>model\<close> never change and are left out
  of the state.
\<close>

datatype viewState = viewConversations | viewMessages | viewSearch | viewAttachments

record Conversation =
  ChatID :: int
  Identifier :: string
  DisplayName :: string
  Participants :: "string list"
  ServiceName :: string
  FirstMsgDate :: Time
  LastMsgDate :: Time
  MessageCount :: int
  SentCount :: int
  ReceivedCount :: int
  Style :: int

record ChatAttachment =
  ca_ROWID :: int
  ca_FilePath :: string
  ca_Filename :: string
  ca_MimeType :: string
  ca_TypeLabel :: string
  ca_Size :: int
  ca_Date :: Time
  ca_IsFromMe :: bool
  ca_Sender :: string

record SearchResult =
  sr_Message :: Message
  sr_ChatID :: int
  sr_ChatName :: string

subsection \<open>Widgets\<close>

datatype FilterState = Unfiltered | Filtering | FilterApplied

record 'i list_Model =
  l_items :: "'i list"
  l_filtered :: "'i list"
  l_Title :: string
  l_width :: int
  l_height :: int
  l_index :: nat
  l_filterState :: FilterState

record viewport_Model =
  vp_Width :: int
  vp_Height :: int
  vp_YOffset :: int
  vp_content :: string

record textinput_Model =
  ti_value :: string
  ti_focused :: bool

subsection \<open>Messages and commands\<close>

text \<open>The messages \<^verbatim>\<open>Update\<close> receives: the window size, a key (by its name), the results of
  the asynchronous commands, and any other message of the libraries (mouse, cursor blink).\<close>

datatype Msg =
    WindowSizeMsg int int
  | KeyMsg string
  | conversationsLoadedMsg "Conversation list" "error option"
  | messagesLoadedMsg "Message list" int bool "error option"
  | searchResultsMsg "SearchResult list" string "error option"
  | exportDoneMsg string "error option"
  | attachmentsLoadedMsg "ChatAttachment list" "error option"
  | attachmentOpenedMsg "error option"
  | OtherMsg nat

text \<open>The commands \<^verbatim>\<open>Update\<close> returns: \<^verbatim>\<open>nil\<close> is the empty list, \<^verbatim>\<open>tea.Batch\<close> puts lists
  together. A command of a library is opaque and of its own type, \<open>LibCmd\<close>.\<close>

datatype LibCmd = LibCmd nat

datatype Cmd =
    Quit
  | Blink
  | fetchMessagesCmd int int bool
  | fetchAttachmentsCmd int
  | openAttachmentCmd string
  | exportCmd int "string list" string
  | searchCmd string
  | FromLib LibCmd

record Lib =
  lib_convList_Update :: "Msg \<Rightarrow> Conversation list_Model \<Rightarrow> Conversation list_Model \<times> LibCmd list"
  lib_searchResults_Update :: "Msg \<Rightarrow> SearchResult list_Model \<Rightarrow> SearchResult list_Model \<times> LibCmd list"
  lib_attachmentList_Update :: "Msg \<Rightarrow> ChatAttachment list_Model \<Rightarrow> ChatAttachment list_Model \<times> LibCmd list"
  lib_list_SetItems_cmd :: "FilterState \<Rightarrow> LibCmd list"
  lib_viewport_Update :: "Msg \<Rightarrow> viewport_Model \<Rightarrow> viewport_Model \<times> LibCmd list"
  lib_viewport_SetContent :: "string \<Rightarrow> viewport_Model \<Rightarrow> viewport_Model"
  lib_viewport_GotoTop :: "viewport_Model \<Rightarrow> viewport_Model"
  lib_viewport_GotoBottom :: "viewport_Model \<Rightarrow> viewport_Model"
  lib_viewport_AtTop :: "viewport_Model \<Rightarrow> bool"
  lib_textinput_Update :: "Msg \<Rightarrow> textinput_Model \<Rightarrow> textinput_Model \<times> LibCmd list"
  lib_render :: "bool \<Rightarrow> bool \<Rightarrow> Message list \<Rightarrow> int \<Rightarrow> string"
  lib_ResolveName :: "string \<Rightarrow> string"
  lib_Quote :: "string \<Rightarrow> string"
  lib_error_text :: "error \<Rightarrow> string"

subsection \<open>The model\<close>

record model =
  state :: viewState
  width :: int
  height :: int
  err :: "error option"
  convList :: "Conversation list_Model"
  convItems :: "Conversation list"
  viewport :: viewport_Model
  messages :: "Message list"
  activeChatID :: int
  activeChatTitle :: string
  activeParticipants :: "string list"
  activeMsgCount :: int
  oldestCursor :: int
  allLoaded :: bool
  loading :: bool
  searchInput :: textinput_Model
  searchResults :: "SearchResult list_Model"
  searching :: bool
  searchTerm :: string
  exporting :: bool
  exportStatus :: string
  attachmentList :: "ChatAttachment list_Model"

text \<open>The list widget's \<^verbatim>\<open>SetItems\<close>, \<^verbatim>\<open>SetSize\<close>, \<^verbatim>\<open>SelectedItem\<close> and \<^verbatim>\<open>ResetFilter\<close>.\<close>

definition list_SetItems :: "Lib \<Rightarrow> 'i list \<Rightarrow> 'i list_Model \<Rightarrow> 'i list_Model \<times> Cmd list" where
  "list_SetItems L items l =
     (l\<lparr>l_items := items\<rparr>, map FromLib (lib_list_SetItems_cmd L (l_filterState l)))"

definition list_SetSize :: "int \<Rightarrow> int \<Rightarrow> 'i list_Model \<Rightarrow> 'i list_Model" where
  "list_SetSize w h l = l\<lparr>l_width := w, l_height := h\<rparr>"

definition list_SelectedItem :: "'i list_Model \<Rightarrow> 'i option" where
  "list_SelectedItem l =
     (let visible = (if l_filterState l = Unfiltered then l_items l else l_filtered l)
      in if l_index l < length visible then Some (visible ! l_index l) else None)"

definition list_ResetFilter :: "'i list_Model \<Rightarrow> 'i list_Model" where
  "list_ResetFilter l = l\<lparr>l_filterState := Unfiltered, l_filtered := []\<rparr>"

definition new_list :: "string \<Rightarrow> 'i list_Model" where
  "new_list title =
     \<lparr>l_items = [], l_filtered = [], l_Title = title, l_width = 0, l_height = 0, l_index = 0,
      l_filterState = Unfiltered\<rparr>"

definition emdash :: string where
  "emdash = [CHR 0xE2, CHR 0x80, CHR 0x94]"

text \<open>\<^verbatim>\<open>convItem.Title\<close> (the contact book of the program is never \<^verbatim>\<open>nil\<close>).\<close>

definition convItem_Title :: "Lib \<Rightarrow> Conversation \<Rightarrow> string" where
  "convItem_Title L c =
     (if DisplayName c \<noteq> '''' then DisplayName c
      else if length (Participants c) > 0
           then strings_Join (map (lib_ResolveName L) (Participants c)) '', ''
      else Identifier c)"

definition calcViewportHeight :: "int \<Rightarrow> int \<Rightarrow> int" where
  "calcViewportHeight totalHeight participantCount =
     (let headerLines = 2 + participantCount;
          footerH = 1;
          h = totalHeight - headerLines - footerH - 4
      in if h < 1 then 1 else h)"

text \<open>\<^verbatim>\<open>renderMessages\<close> reads the flags \<^verbatim>\<open>allLoaded\<close> and \<^verbatim>\<open>loading\<close>, the messages and the
  width of the viewport; the styled text it builds from them is the library's.\<close>

definition renderMessages :: "Lib \<Rightarrow> model \<Rightarrow> string" where
  "renderMessages L m = lib_render L (allLoaded m) (loading m) (messages m) (vp_Width (viewport m))"

definition NewModel :: model where
  "NewModel =
     \<lparr>state = viewConversations, width = 0, height = 0, err = None,
      convList = new_list ''iMessage Conversations'', convItems = [],
      viewport = \<lparr>vp_Width = 0, vp_Height = 0, vp_YOffset = 0, vp_content = ''''\<rparr>,
      messages = [], activeChatID = 0, activeChatTitle = '''', activeParticipants = [],
      activeMsgCount = 0, oldestCursor = 0, allLoaded = False, loading = False,
      searchInput = \<lparr>ti_value = '''', ti_focused = False\<rparr>,
      searchResults = new_list ''Search Results'', searching = False, searchTerm = '''',
      exporting = False, exportStatus = '''',
      attachmentList = new_list ''Attachments''\<rparr>"

subsection \<open>Key handling in the four views\<close>

definition lift_cmds :: "'w \<times> LibCmd list \<Rightarrow> 'w \<times> Cmd list" where
  "lift_cmds r = (fst r, map FromLib (snd r))"

text \<open>Entering a thread (shared by the conversation list and the search results): the window
  is cleared, the cursor reset to 0, \<^verbatim>\<open>allLoaded\<close> cleared, \<^verbatim>\<open>loading\<close> set, and the newest
  page requested.\<close>

definition updateConversationList :: "Lib \<Rightarrow> model \<Rightarrow> string \<Rightarrow> model \<times> Cmd list" where
  "updateConversationList L m key =
     (let pass = (let (l, cmd) = lift_cmds (lib_convList_Update L (KeyMsg key) (convList m))
                  in (m\<lparr>convList := l\<rparr>, cmd))
      in if key = ''enter'' then
           (case list_SelectedItem (convList m) of
              None \<Rightarrow> (m, [])
            | Some selected \<Rightarrow>
                (let m1 = m\<lparr>state := viewMessages,
                             activeChatID := ChatID selected,
                             activeChatTitle := convItem_Title L selected,
                             activeParticipants := Participants selected,
                             activeMsgCount := MessageCount selected,
                             messages := [],
                             oldestCursor := 0,
                             allLoaded := False,
                             loading := True\<rparr>;
                     m2 = m1\<lparr>viewport := (viewport m1)
                            \<lparr>vp_Height := calcViewportHeight (height m1)
                                            (int (length (activeParticipants m1)))\<rparr>\<rparr>
                 in (m2, [fetchMessagesCmd (ChatID selected) 0 False])))
         else if key = ''s'' \<and> l_filterState (convList m) = Unfiltered then
           (m\<lparr>state := viewSearch, searchInput := \<lparr>ti_value = '''', ti_focused = True\<rparr>\<rparr>,
            [Blink])
         else if key = ''q'' \<and> l_filterState (convList m) = Unfiltered then (m, [Quit])
         else pass)"

definition updateMessageView :: "Lib \<Rightarrow> model \<Rightarrow> string \<Rightarrow> model \<times> Cmd list" where
  "updateMessageView L m key =
     (if key = ''esc'' \<or> key = ''backspace'' then
        (m\<lparr>state := viewConversations, messages := [], exportStatus := ''''\<rparr>, [])
      else if key = ''t'' then (m\<lparr>viewport := lib_viewport_GotoTop L (viewport m)\<rparr>, [])
      else if key = ''b'' then (m\<lparr>viewport := lib_viewport_GotoBottom L (viewport m)\<rparr>, [])
      else if key = ''e'' then
        (if \<not> exporting m
         then (m\<lparr>exporting := True, exportStatus := ''Exporting...''\<rparr>,
               [exportCmd (activeChatID m) (activeParticipants m) (activeChatTitle m)])
         else (m, []))
      else if key = ''a'' then
        (m\<lparr>state := viewAttachments,
           attachmentList := (attachmentList m)\<lparr>l_Title := ''Loading attachments...''\<rparr>\<rparr>,
         [fetchAttachmentsCmd (activeChatID m)])
      else
        (let (vp, cmd) = lift_cmds (lib_viewport_Update L (KeyMsg key) (viewport m));
             m1 = m\<lparr>viewport := vp\<rparr>
         in if lib_viewport_AtTop L (viewport m1) \<and> \<not> allLoaded m1 \<and> \<not> loading m1
            then (m1\<lparr>loading := True\<rparr>,
                  cmd @ [fetchMessagesCmd (activeChatID m1) (oldestCursor m1) True])
            else (m1, cmd)))"

definition updateSearchView :: "Lib \<Rightarrow> model \<Rightarrow> string \<Rightarrow> model \<times> Cmd list" where
  "updateSearchView L m key =
     (if ti_focused (searchInput m) then
        (if key = ''enter'' then
           (let query = strings_TrimSpace (ti_value (searchInput m))
            in if query = '''' then (m, [])
               else (m\<lparr>searchInput := (searchInput m)\<lparr>ti_focused := False\<rparr>,
                       searching := True,
                       searchResults := (searchResults m)\<lparr>l_Title := ''Searching...''\<rparr>\<rparr>,
                     [searchCmd query]))
         else if key = ''esc'' then
           (m\<lparr>state := viewConversations,
              searchInput := (searchInput m)\<lparr>ti_focused := False\<rparr>\<rparr>, [])
         else (let (ti, cmd) = lift_cmds (lib_textinput_Update L (KeyMsg key) (searchInput m))
               in (m\<lparr>searchInput := ti\<rparr>, cmd)))
      else if key = ''esc'' then (m\<lparr>state := viewConversations\<rparr>, [])
      else if key = ''s'' then
        (m\<lparr>searchInput := \<lparr>ti_value = '''', ti_focused = True\<rparr>\<rparr>, [Blink])
      else if key = ''enter'' then
        (case list_SelectedItem (searchResults m) of
           None \<Rightarrow> (m, [])
         | Some selected \<Rightarrow>
             (let m1 = m\<lparr>state := viewMessages,
                          activeChatID := sr_ChatID selected,
                          activeChatTitle := lib_ResolveName L (sr_ChatName selected),
                          activeParticipants := [],
                          activeMsgCount := 0\<rparr>;
                  m2 = (case find (\<lambda>conv. ChatID conv = sr_ChatID selected) (convItems m1) of
                          None \<Rightarrow> m1
                        | Some conv \<Rightarrow>
                            m1\<lparr>activeParticipants := Participants conv,
                               activeMsgCount := MessageCount conv,
                               activeChatTitle := convItem_Title L conv\<rparr>);
                  m3 = m2\<lparr>messages := [], oldestCursor := 0, allLoaded := False,
                          loading := True\<rparr>;
                  m4 = m3\<lparr>viewport := (viewport m3)
                         \<lparr>vp_Height := calcViewportHeight (height m3)
                                         (int (length (activeParticipants m3)))\<rparr>\<rparr>
              in (m4, [fetchMessagesCmd (sr_ChatID selected) 0 False])))
      else (let (l, cmd) = lift_cmds (lib_searchResults_Update L (KeyMsg key) (searchResults m))
            in (m\<lparr>searchResults := l\<rparr>, cmd)))"

definition updateAttachmentView :: "Lib \<Rightarrow> model \<Rightarrow> string \<Rightarrow> model \<times> Cmd list" where
  "updateAttachmentView L m key =
     (let pass = (let (l, cmd) = lift_cmds (lib_attachmentList_Update L (KeyMsg key) (attachmentList m))
                  in (m\<lparr>attachmentList := l\<rparr>, cmd))
      in if key = ''esc'' \<or> key = ''backspace'' then
           (if l_filterState (attachmentList m) = Filtering
            then (m\<lparr>attachmentList := list_ResetFilter (attachmentList m)\<rparr>, [])
            else (m\<lparr>state := viewMessages\<rparr>, []))
         else if key = ''enter'' then
           (if l_filterState (attachmentList m) = Filtering then pass
            else (case list_SelectedItem (attachmentList m) of
                    None \<Rightarrow> (m, [])
                  | Some selected \<Rightarrow> (m, [openAttachmentCmd (ca_FilePath selected)])))
         else pass)"

subsection \<open>\<^verbatim>\<open>Update\<close>\<close>

text \<open>The case for \<^verbatim>\<open>messagesLoadedMsg\<close>, statement by statement.\<close>

definition on_messagesLoaded ::
  "Lib \<Rightarrow> model \<Rightarrow> Message list \<Rightarrow> int \<Rightarrow> bool \<Rightarrow> error option \<Rightarrow> model \<times> Cmd list" where
  "on_messagesLoaded L m msgs chatID prepend e =
     (case e of
        Some er \<Rightarrow> (m\<lparr>err := Some er\<rparr>, [])
      | None \<Rightarrow>
          if chatID \<noteq> activeChatID m then (m, [])
          else
            (let m1 = m\<lparr>loading := False\<rparr> in
             if length msgs = 0 then
               (let m2 = m1\<lparr>allLoaded := True\<rparr>
                in (m2\<lparr>viewport := lib_viewport_SetContent L (renderMessages L m2) (viewport m2)\<rparr>,
                    []))
             else
               (let m2 = (if prepend then m1\<lparr>messages := msgs @ messages m1\<rparr>
                          else m1\<lparr>messages := msgs\<rparr>);
                    m3 = (if length (messages m2) > 0
                          then m2\<lparr>oldestCursor := ROWID (hd (messages m2))\<rparr> else m2);
                    m4 = (if int (length msgs) < messagesPageSize
                          then m3\<lparr>allLoaded := True\<rparr> else m3);
                    m5 = m4\<lparr>viewport := lib_viewport_SetContent L (renderMessages L m4) (viewport m4)\<rparr>;
                    m6 = (if \<not> prepend
                          then m5\<lparr>viewport := lib_viewport_GotoBottom L (viewport m5)\<rparr> else m5)
                in (m6, []))))"

definition on_attachmentsLoaded ::
  "Lib \<Rightarrow> model \<Rightarrow> ChatAttachment list \<Rightarrow> error option \<Rightarrow> model \<times> Cmd list" where
  "on_attachmentsLoaded L m attachments e =
     (case e of
        Some er \<Rightarrow> (m\<lparr>err := Some er\<rparr>, [])
      | None \<Rightarrow>
          (let items = attachments;
               (l, cmd) = list_SetItems L items (attachmentList m);
               l' = l\<lparr>l_Title := ''Attachments '' @ emdash @ '' ''
                                   @ Sprintf_d (int (length attachments)) @ '' files''\<rparr>
           in (m\<lparr>attachmentList := l'\<rparr>, cmd)))"

definition on_searchResults ::
  "Lib \<Rightarrow> model \<Rightarrow> SearchResult list \<Rightarrow> string \<Rightarrow> error option \<Rightarrow> model \<times> Cmd list" where
  "on_searchResults L m results term e =
     (let m1 = m\<lparr>searching := False\<rparr> in
      case e of
        Some er \<Rightarrow> (m1\<lparr>err := Some er\<rparr>, [])
      | None \<Rightarrow>
          (let m2 = m1\<lparr>searchTerm := term\<rparr>;
               (l, cmd) = list_SetItems L results (searchResults m2);
               l' = l\<lparr>l_Title := ''Search Results '' @ emdash @ '' ''
                                   @ Sprintf_d (int (length results)) @ '' matches for ''
                                   @ lib_Quote L term\<rparr>
           in (m2\<lparr>searchResults := l'\<rparr>, cmd)))"

definition Update :: "Lib \<Rightarrow> model \<Rightarrow> Msg \<Rightarrow> model \<times> Cmd list" where
  "Update L m msg =
     (case msg of
        WindowSizeMsg w h \<Rightarrow>
          (let m1 = m\<lparr>width := w, height := h,
                       convList := list_SetSize (w - 4) (h - 4) (convList m),
                       searchResults := list_SetSize (w - 4) (h - 7) (searchResults m),
                       attachmentList := list_SetSize (w - 4) (h - 4) (attachmentList m)\<rparr>;
               m2 = m1\<lparr>viewport := (viewport m1)
                      \<lparr>vp_Width := w - 4,
                       vp_Height := calcViewportHeight (height m1)
                                      (int (length (activeParticipants m1)))\<rparr>\<rparr>
           in if state m2 = viewMessages \<and> length (messages m2) > 0
              then (m2\<lparr>viewport := lib_viewport_SetContent L (renderMessages L m2) (viewport m2)\<rparr>, [])
              else (m2, []))
      | KeyMsg key \<Rightarrow>
          (if key = ''ctrl+c'' then (m, [Quit])
           else (case state m of
                   viewConversations \<Rightarrow> updateConversationList L m key
                 | viewMessages \<Rightarrow> updateMessageView L m key
                 | viewSearch \<Rightarrow> updateSearchView L m key
                 | viewAttachments \<Rightarrow> updateAttachmentView L m key))
      | conversationsLoadedMsg conversations e \<Rightarrow>
          (case e of
             Some er \<Rightarrow> (m\<lparr>err := Some er\<rparr>, [Quit])
           | None \<Rightarrow>
               (let m1 = m\<lparr>convItems := conversations\<rparr>;
                    (l, cmd) = list_SetItems L conversations (convList m1)
                in (m1\<lparr>convList := l\<rparr>, cmd)))
      | messagesLoadedMsg msgs chatID prepend e \<Rightarrow> on_messagesLoaded L m msgs chatID prepend e
      | exportDoneMsg path e \<Rightarrow>
          (let m1 = m\<lparr>exporting := False\<rparr>
           in (case e of
                 Some er \<Rightarrow> (m1\<lparr>exportStatus := ''Export failed: '' @ lib_error_text L er\<rparr>, [])
               | None \<Rightarrow> (m1\<lparr>exportStatus := ''Exported to '' @ path\<rparr>, [])))
      | attachmentsLoadedMsg attachments e \<Rightarrow> on_attachmentsLoaded L m attachments e
      | attachmentOpenedMsg e \<Rightarrow>
          (case e of
             Some er \<Rightarrow> (m\<lparr>exportStatus := ''Failed to open: '' @ lib_error_text L er\<rparr>, [])
           | None \<Rightarrow> (m, []))
      | searchResultsMsg results term e \<Rightarrow> on_searchResults L m results term e
      | OtherMsg n \<Rightarrow>
          (case state m of
             viewConversations \<Rightarrow>
               (let (l, cmd) = lift_cmds (lib_convList_Update L msg (convList m))
                in (m\<lparr>convList := l\<rparr>, cmd))
           | viewMessages \<Rightarrow>
               (let (vp, cmd) = lift_cmds (lib_viewport_Update L msg (viewport m))
                in (m\<lparr>viewport := vp\<rparr>, cmd))
           | viewSearch \<Rightarrow>
               (if ti_focused (searchInput m)
                then (let (ti, cmd) = lift_cmds (lib_textinput_Update L msg (searchInput m))
                      in (m\<lparr>searchInput := ti\<rparr>, cmd))
                else (let (l, cmd) = lift_cmds (lib_searchResults_Update L msg (searchResults m))
                      in (m\<lparr>searchResults := l\<rparr>, cmd)))
           | viewAttachments \<Rightarrow>
               (let (l, cmd) = lift_cmds (lib_attachmentList_Update L msg (attachmentList m))
                in (m\<lparr>attachmentList := l\<rparr>, cmd))))"



subsection \<open>A plain instance of the libraries, for concrete checks\<close>

text \<open>
  The lists and the text input ignore what they are sent; the viewport scrolls one line up
  or down on the arrow keys and is at its top when its offset is 0; the text of the messages
  is their texts in a row behind a banner.
\<close>

definition simple_lib :: Lib where
  "simple_lib =
     \<lparr>lib_convList_Update = (\<lambda>msg l. (l, [])),
      lib_searchResults_Update = (\<lambda>msg l. (l, [])),
      lib_attachmentList_Update = (\<lambda>msg l. (l, [])),
      lib_list_SetItems_cmd = (\<lambda>fs. []),
      lib_viewport_Update =
        (\<lambda>msg vp. (if msg = KeyMsg ''up'' then vp\<lparr>vp_YOffset := max 0 (vp_YOffset vp - 1)\<rparr>
                    else if msg = KeyMsg ''down'' then vp\<lparr>vp_YOffset := vp_YOffset vp + 1\<rparr>
                    else vp, [])),
      lib_viewport_SetContent = (\<lambda>s vp. vp\<lparr>vp_content := s\<rparr>),
      lib_viewport_GotoTop = (\<lambda>vp. vp\<lparr>vp_YOffset := 0\<rparr>),
      lib_viewport_GotoBottom = (\<lambda>vp. vp),
      lib_viewport_AtTop = (\<lambda>vp. vp_YOffset vp \<le> 0),
      lib_textinput_Update = (\<lambda>msg ti. (ti, [])),
      lib_render =
        (\<lambda>all_loaded is_loading ms w.
           (if all_loaded then ''[beginning]'' else if is_loading then ''[loading]'' else '''')
           @ concat (map Text ms)),
      lib_ResolveName = (\<lambda>handle. handle),
      lib_Quote = (\<lambda>s. [dquote] @ s @ [dquote]),
      lib_error_text = (\<lambda>e. ''error'')\<rparr>"

text \<open>A coordinator showing the thread of conversation 1 with one message loaded, a
  backward fetch in flight.\<close>

definition example_message :: "int \<Rightarrow> Message" where
  "example_message rowid = message_of (example_row 1 rowid (10 * rowid))"

definition model_in_thread :: model where
  "model_in_thread =
     NewModel\<lparr>state := viewMessages, activeChatID := 1, messages := [example_message 7],
              oldestCursor := 7, loading := True\<rparr>"

section \<open>Properties of the string functions\<close>

subsection \<open>Replacing a single byte\<close>

lemma strings_Index_single_None:
  "c \<notin> set s \<Longrightarrow> strings_Index s [c] = None"
  by (induction s) auto

lemma strings_Index_single_Some:
  "c \<in> set s \<Longrightarrow> strings_Index s [c] = Some (length (takeWhile (\<lambda>x. x \<noteq> c) s))"
  by (induction s) auto

lemma strings_Count_single:
  "strings_Count s [c] = length (filter (\<lambda>x. x = c) s)"
proof (induction "length s" arbitrary: s rule: less_induct)
  case less
  show ?case
  proof (cases "c \<in> set s")
    case False
    then have "filter (\<lambda>x. x = c) s = []" by (induction s) auto
    with False show ?thesis
      by (simp add: strings_Count.simps [of s] strings_Index_single_None)
  next
    case True
    let ?j = "length (takeWhile (\<lambda>x. x \<noteq> c) s)"
    let ?rest = "drop (?j + 1) s"
    from True have split: "s = takeWhile (\<lambda>x. x \<noteq> c) s @ c # ?rest"
      by (induction s) auto
    from True have "length ?rest < length s"
      by (cases s) auto
    then have IH: "strings_Count ?rest [c] = length (filter (\<lambda>x. x = c) ?rest)"
      by (rule less)
    have "filter (\<lambda>x. x = c) (takeWhile (\<lambda>x. x \<noteq> c) s) = []"
      by (induction s) auto
    then have "length (filter (\<lambda>x. x = c) s) = 1 + length (filter (\<lambda>x. x = c) ?rest)"
      by (subst split) simp
    with True IH show ?thesis
      by (simp add: strings_Count.simps [of s] strings_Index_single_Some)
  qed
qed

lemma Replace_loop_single:
  "length (filter (\<lambda>x. x = c) s) \<le> n \<Longrightarrow>
   Replace_loop s [c] new n = concat (map (\<lambda>x. if x = c then new else [x]) s)"
proof (induction n arbitrary: s)
  case 0
  then have "c \<notin> set s" by (induction s) (auto split: if_splits)
  then have "concat (map (\<lambda>x. if x = c then new else [x]) s) = s"
    by (induction s) auto
  then show ?case by simp
next
  case (Suc n)
  show ?case
  proof (cases "c \<in> set s")
    case False
    then have "concat (map (\<lambda>x. if x = c then new else [x]) s) = s"
      by (induction s) auto
    with False show ?thesis by (simp add: strings_Index_single_None)
  next
    case True
    let ?pre = "takeWhile (\<lambda>x. x \<noteq> c) s"
    let ?rest = "drop (length ?pre + 1) s"
    from True have split: "s = ?pre @ c # ?rest"
      by (induction s) auto
    have pre: "concat (map (\<lambda>x. if x = c then new else [x]) ?pre) = ?pre"
      by (induction s) auto
    have "filter (\<lambda>x. x = c) ?pre = []"
      by (induction s) auto
    then have "length (filter (\<lambda>x. x = c) s) = 1 + length (filter (\<lambda>x. x = c) ?rest)"
      by (subst split) simp
    with Suc.prems have "length (filter (\<lambda>x. x = c) ?rest) \<le> n" by simp
    then have IH: "Replace_loop ?rest [c] new n
                     = concat (map (\<lambda>x. if x = c then new else [x]) ?rest)"
      by (rule Suc.IH)
    have "concat (map (\<lambda>x. if x = c then new else [x]) s)
            = ?pre @ new @ concat (map (\<lambda>x. if x = c then new else [x]) ?rest)"
      by (subst split) (simp add: pre)
    moreover have "take (length ?pre) s = ?pre"
      by (subst split) simp
    ultimately show ?thesis
      using True IH by (simp add: strings_Index_single_Some)
  qed
qed

lemma strings_ReplaceAll_single:
  "new \<noteq> [c] \<Longrightarrow>
   strings_ReplaceAll s [c] new = concat (map (\<lambda>x. if x = c then new else [x]) s)"
proof -
  assume neq: "new \<noteq> [c]"
  show ?thesis
  proof (cases "filter (\<lambda>x. x = c) s = []")
    case True
    then have "c \<notin> set s" by (induction s) (auto split: if_splits)
    then have "concat (map (\<lambda>x. if x = c then new else [x]) s) = s"
      by (induction s) auto
    with True neq show ?thesis
      by (simp add: strings_ReplaceAll_def strings_Replace_def strings_Count_single)
  next
    case False
    with neq show ?thesis
      by (simp add: strings_ReplaceAll_def strings_Replace_def strings_Count_single
            Replace_loop_single)
  qed
qed

lemma strings_ContainsAny_iff:
  "strings_ContainsAny s chars \<longleftrightarrow> (\<exists>c \<in> set s. c \<in> set chars)"
  by (simp add: strings_ContainsAny_def list_ex_iff)

lemma csvEscape_general:
  "csvEscape s =
     (if \<exists>c \<in> set s. c = comma \<or> c = dquote \<or> c = LF \<or> c = CR
      then [dquote] @ concat (map (\<lambda>c. if c = dquote then [dquote, dquote] else [c]) s)
             @ [dquote]
      else s)"
  by (auto simp: csvEscape_def strings_ContainsAny_iff strings_ReplaceAll_single)

lemma csvEscape_examples:
  "csvEscape ''hello, world'' = [dquote] @ ''hello, world'' @ [dquote]"
  "csvEscape (''say '' @ [dquote] @ ''hi'' @ [dquote])
     = [dquote] @ ''say '' @ [dquote, dquote] @ ''hi'' @ [dquote, dquote] @ [dquote]"
  "csvEscape ''hello'' = ''hello''"
  by (simp_all add: csvEscape_general)

section \<open>Properties of the time conversion\<close>

lemma sdiv_smod_billion:
  fixes n :: int
  shows "n sdiv 1000000000 * 1000000000 + n smod 1000000000 = n"
  by (rule sdiv_mult_smod_eq)

lemma smod_billion_range:
  fixes n :: int
  shows "- 1000000000 < n smod 1000000000 \<and> n smod 1000000000 < 1000000000"
proof -
  have "0 \<le> \<bar>n\<bar> mod 1000000000" "\<bar>n\<bar> mod 1000000000 < 1000000000"
    by simp_all
  then show ?thesis
    by (cases "n < 0"; cases "n = 0"; simp add: smod_int_alt_def sgn_if)
qed

lemma time_Unix_UnixNano:
  assumes "- 1000000000 < nsec" "nsec < 1000000000"
  shows "Time_UnixNano (time_Unix sec nsec) = sec * 1000000000 + nsec"
    and "0 \<le> t_nsec (time_Unix sec nsec)"
    and "t_nsec (time_Unix sec nsec) < 1000000000"
proof -
  have q: "nsec sdiv 1000000000 = 0"
    using assms by (simp add: signed_divide_int_def sgn_if div_pos_pos_trivial)
  show "Time_UnixNano (time_Unix sec nsec) = sec * 1000000000 + nsec"
    using assms by (simp add: time_Unix_def Time_UnixNano_def q Let_def)
  show "0 \<le> t_nsec (time_Unix sec nsec)"
    using assms by (simp add: time_Unix_def q Let_def)
  show "t_nsec (time_Unix sec nsec) < 1000000000"
    using assms by (simp add: time_Unix_def q Let_def)
qed

lemma appleNanosToTime_UnixNano:
  assumes "nanos \<noteq> 0"
  shows "Time_UnixNano (appleNanosToTime nanos) = nanos + appleEpochOffset * 1000000000"
proof -
  let ?r = "nanos smod 1000000000"
  let ?q = "nanos sdiv 1000000000"
  have r: "- 1000000000 < ?r" "?r < 1000000000"
    using smod_billion_range [of nanos] by simp_all
  have "Time_UnixNano (time_Unix (?q + appleEpochOffset) ?r)
          = (?q + appleEpochOffset) * 1000000000 + ?r"
    using r by (rule time_Unix_UnixNano(1))
  also have "\<dots> = (?q * 1000000000 + ?r) + appleEpochOffset * 1000000000"
    by (simp add: algebra_simps)
  also have "\<dots> = nanos + appleEpochOffset * 1000000000"
    by (simp only: sdiv_smod_billion)
  finally show ?thesis
    using assms by (simp add: appleNanosToTime_def Let_def)
qed

lemma sdiv_billion_bound:
  fixes n :: int
  assumes "int64 n"
  shows "- 9223372037 < n sdiv 1000000000 \<and> n sdiv 1000000000 < 9223372037"
proof -
  from assms have "\<bar>n\<bar> \<le> 9223372036854775808"
    by (auto simp: int64_def)
  then have "\<bar>n\<bar> div 1000000000 \<le> 9223372036854775808 div 1000000000"
    by (rule zdiv_mono1) simp
  then have "\<bar>n\<bar> div 1000000000 \<le> 9223372036" by simp
  moreover have "0 \<le> \<bar>n\<bar> div 1000000000" by simp
  ultimately show ?thesis
    by (cases "n < 0"; cases "n = 0"; simp add: signed_divide_int_def sgn_if)
qed

lemma appleNanosToTime_no_overflow:
  assumes "int64 nanos"
  shows "int64 (nanos sdiv 1000000000 + appleEpochOffset)"
    and "int64 (nanos smod 1000000000)"
  using sdiv_billion_bound [OF assms] smod_billion_range [of nanos]
  by (simp_all add: int64_def appleEpochOffset_def)

lemma appleNanosToTime_not_zero:
  assumes "int64 nanos" "nanos \<noteq> 0"
  shows "\<not> Time_IsZero (appleNanosToTime nanos)"
proof
  assume z: "Time_IsZero (appleNanosToTime nanos)"
  then have "Time_UnixNano (appleNanosToTime nanos) = - unixToInternal * 1000000000"
    by (simp add: Time_IsZero_def Time_UnixNano_def)
  with appleNanosToTime_UnixNano [OF assms(2)]
  have "nanos = - unixToInternal * 1000000000 - appleEpochOffset * 1000000000"
    by simp
  with assms(1) show False
    by (simp add: int64_def unixToInternal_def appleEpochOffset_def)
qed

section \<open>Properties of splitting and of the attachment decoder\<close>

lemma strings_Index_at:
  "strings_Index s sep = Some m \<Longrightarrow> s = take m s @ sep @ drop (m + length sep) s"
proof (induction s arbitrary: m)
  case Nil
  then show ?case by (simp split: if_splits)
next
  case (Cons c cs)
  show ?case
  proof (cases "prefix sep (c # cs)")
    case True
    with Cons.prems have "m = 0" by simp
    moreover from True obtain r where "c # cs = sep @ r"
      by (auto simp: prefix_def)
    ultimately show ?thesis by simp
  next
    case False
    with Cons.prems obtain j where j: "strings_Index cs sep = Some j" "m = Suc j"
      by auto
    from Cons.IH [OF j(1)] have "cs = take j cs @ sep @ drop (j + length sep) cs" .
    then have "c # cs = c # (take j cs @ sep @ drop (j + length sep) cs)"
      by simp
    with j(2) show ?thesis by simp
  qed
qed

lemma genSplit_loop_join:
  "strings_Join (genSplit_loop s sep 0 n) sep = s"
proof (induction n arbitrary: s)
  case 0
  show ?case by simp
next
  case (Suc n)
  show ?case
  proof (cases "strings_Index s sep")
    case None
    then show ?thesis by simp
  next
    case (Some m)
    let ?rest = "drop (m + length sep) s"
    have ne: "genSplit_loop ?rest sep 0 n \<noteq> []"
      by (cases n) (auto split: option.splits)
    from Suc.IH [of ?rest] ne
    have "strings_Join (take m s # genSplit_loop ?rest sep 0 n) sep
            = take m s @ sep @ ?rest"
      by (cases "genSplit_loop ?rest sep 0 n") auto
    with strings_Index_at [OF Some] Some show ?thesis by simp
  qed
qed

lemma genSplit_loop_length:
  "1 \<le> length (genSplit_loop s sep k n) \<and> length (genSplit_loop s sep k n) \<le> Suc n"
  by (induction n arbitrary: s) (auto split: option.splits)

lemma strings_SplitN_3_length:
  "1 \<le> length (strings_SplitN e ''||'' 3) \<and> length (strings_SplitN e ''||'' 3) \<le> 3"
proof -
  let ?n2 = "if (3::int) > int (length e) + 1 then int (length e) + 1 else 3"
  have eq: "strings_SplitN e ''||'' 3 = genSplit_loop e ''||'' 0 (nat (?n2 - 1))"
    by (simp add: strings_SplitN_def genSplit_def Let_def)
  have "nat (?n2 - 1) \<le> 2" by simp
  with genSplit_loop_length [of e "''||''" 0 "nat (?n2 - 1)"] show ?thesis
    unfolding eq by linarith
qed

lemma strings_Split_join:
  "sep \<noteq> [] \<Longrightarrow> strings_Join (strings_Split s sep) sep = s"
  by (simp add: strings_Split_def genSplit_def Let_def genSplit_loop_join)

lemma strings_SplitN_join:
  "sep \<noteq> [] \<Longrightarrow> 0 < n \<Longrightarrow> strings_Join (strings_SplitN s sep n) sep = s"
  by (simp add: strings_SplitN_def genSplit_def Let_def genSplit_loop_join)

lemma parseAttachments_loop_eq:
  "parseAttachments_loop entries acc = acc @ List.map_filter parseEntry entries"
  by (induction entries arbitrary: acc) (auto simp: List.map_filter_simps split: option.splits)

lemma parseEntry_eq:
  "parseEntry entry = (if entry_is_empty entry then None else Some (entry_record entry))"
proof -
  obtain fs where fs: "strings_SplitN entry ''||'' 3 = fs" by simp
  show ?thesis
  proof (cases fs)
    case Nil
    with fs show ?thesis
      by (simp add: parseEntry_def entry_is_empty_def entry_record_def entry_mime_def
            entry_name_def entry_size_def entry_fields_def)
  next
    case (Cons a as)
    note c1 = this
    show ?thesis
    proof (cases as)
      case Nil
      with fs c1 show ?thesis
        by (simp add: parseEntry_def entry_is_empty_def entry_record_def entry_mime_def
              entry_name_def entry_size_def entry_fields_def)
    next
      case (Cons b bs)
      note c2 = this
      show ?thesis
      proof (cases bs)
        case Nil
        with fs c1 c2 show ?thesis
          by (simp add: parseEntry_def entry_is_empty_def entry_record_def entry_mime_def
                entry_name_def entry_size_def entry_fields_def)
      next
        case (Cons c cs)
        with fs c1 c2 show ?thesis
          by (auto simp: parseEntry_def entry_is_empty_def entry_record_def entry_mime_def
                entry_name_def entry_size_def entry_fields_def Let_def)
      qed
    qed
  qed
qed

lemma map_filter_parseEntry:
  "List.map_filter parseEntry entries
     = map entry_record (filter (\<lambda>e. \<not> entry_is_empty e) entries)"
  by (induction entries) (simp_all add: List.map_filter_simps parseEntry_eq)

lemma parseAttachments_general:
  "parseAttachments raw =
     (if raw = '''' then []
      else map entry_record (filter (\<lambda>e. \<not> entry_is_empty e) (strings_Split raw '';;'')))"
  by (simp add: parseAttachments_def parseAttachments_loop_eq map_filter_parseEntry)

lemma parseAttachments_example_single:
  "parseAttachments ''image/jpeg||IMG_001.jpg||2048576''
     = [\<lparr>TypeLabel = ''photo'', Filename = ''IMG_001.jpg'', Size = 2048576\<rparr>]"
  by code_simp

lemma parseAttachments_example_empty:
  "parseAttachments '''' = []"
  by (simp add: parseAttachments_def)

lemma parseAttachments_example_multiple:
  "parseAttachments ''image/heic||a.heic||1000;;video/quicktime||b.mov||5000''
     = [\<lparr>TypeLabel = ''photo'', Filename = ''a.heic'', Size = 1000\<rparr>,
        \<lparr>TypeLabel = ''video'', Filename = ''b.mov'', Size = 5000\<rparr>]"
  by code_simp

lemma parseAttachments_null_row:
  "parseAttachments ''||||0'' = []"
  by code_simp

lemma entry_is_empty_null_row:
  "entry_is_empty ''||||0''"
  by code_simp

section \<open>Properties of the byte-size formatter\<close>

lemma round_half_even_near:
  assumes "0 < den"
  shows "2 * \<bar>num - round_half_even num den * den\<bar> \<le> den"
proof -
  let ?q = "num div den" and ?r = "num mod den"
  have r: "0 \<le> ?r" "?r < den" using assms by simp_all
  show ?thesis
  proof (cases "2 * ?r > den \<or> (2 * ?r = den \<and> odd ?q)")
    case True
    then have t: "round_half_even num den = ?q + 1"
      by (simp add: round_half_even_def Let_def)
    have "num - ?q * den = ?r"
      by (rule minus_div_mult_eq_mod)
    then have "num - (?q + 1) * den = ?r - den"
      by (simp add: algebra_simps)
    with r True show ?thesis unfolding t by auto
  next
    case False
    then have t: "round_half_even num den = ?q"
      by (auto simp: round_half_even_def Let_def)
    have "num - ?q * den = ?r"
      by (rule minus_div_mult_eq_mod)
    with r False show ?thesis unfolding t by auto
  qed
qed

lemma round_half_even_nonneg:
  assumes "0 < den" "0 \<le> num"
  shows "0 \<le> round_half_even num den"
proof -
  from assms have "0 \<le> num div den" by (simp add: pos_imp_zdiv_nonneg_iff)
  then show ?thesis by (simp add: round_half_even_def Let_def)
qed

lemma round_half_even_one: "round_half_even n 1 = n"
  by (simp add: round_half_even_def)

lemma float64_of_int_exact:
  assumes "\<bar>b\<bar> < 2 ^ 53"
  shows "float64_of_int b = b"
proof -
  from assms have "float64_shift \<bar>b\<bar> 0 = 0"
    by (simp add: float64_shift.simps [of "\<bar>b\<bar>" 0])
  then show ?thesis
    by (simp add: float64_of_int_def round_half_even_one mult_sgn_abs)
qed

lemma float64_of_int_nonneg:
  assumes "0 \<le> b"
  shows "0 \<le> float64_of_int b"
proof -
  have "0 \<le> round_half_even \<bar>b\<bar> (2 ^ float64_shift \<bar>b\<bar> 0)"
    by (rule round_half_even_nonneg) simp_all
  with assms show ?thesis
    by (simp add: float64_of_int_def Let_def sgn_if)
qed

lemma itoa_nonneg_digit:
  "n < 10 \<Longrightarrow> itoa_nonneg n = [digit_char n]"
  by (simp add: itoa_nonneg.simps [of n])

lemma isDigit_digit_char:
  "0 \<le> d \<Longrightarrow> d < 10 \<Longrightarrow> isDigit (digit_char d)"
proof -
  assume "0 \<le> d" "d < 10"
  then have "d = 0 \<or> d = 1 \<or> d = 2 \<or> d = 3 \<or> d = 4 \<or> d = 5 \<or> d = 6 \<or> d = 7
      \<or> d = 8 \<or> d = 9" by arith
  then show ?thesis
    by (auto simp: isDigit_def digit_char_def)
qed

lemma itoa_nonneg_digits:
  "0 \<le> n \<Longrightarrow> \<forall>c \<in> set (itoa_nonneg n). isDigit c"
proof (induction n rule: itoa_nonneg.induct)
  case (1 n)
  show ?case
  proof (cases "n < 10")
    case True
    with "1.prems" show ?thesis
      by (simp add: itoa_nonneg_digit isDigit_digit_char)
  next
    case False
    then have "0 \<le> n div 10" by simp
    with "1.IH" False have "\<forall>c \<in> set (itoa_nonneg (n div 10)). isDigit c" by simp
    moreover have "isDigit (digit_char (n mod 10))"
      by (rule isDigit_digit_char) simp_all
    ultimately show ?thesis
      using False by (simp add: itoa_nonneg.simps [of n])
  qed
qed

lemma Sprintf_1f_spec:
  assumes "0 \<le> x"
  shows "\<exists>t \<ge> 0. Sprintf_1f x k = itoa_nonneg (t div 10) @ ''.'' @ [digit_char (t mod 10)]
           \<and> 2 * \<bar>10 * x - t * 2 ^ k\<bar> \<le> 2 ^ k"
proof -
  let ?t = "round_half_even (10 * x) (2 ^ k)"
  have "0 \<le> ?t" using assms by (intro round_half_even_nonneg) simp_all
  moreover have "Sprintf_1f x k = itoa_nonneg (?t div 10) @ ''.'' @ [digit_char (?t mod 10)]"
    by (simp add: Sprintf_1f_def Let_def itoa_nonneg_digit)
  moreover have "2 * \<bar>10 * x - ?t * 2 ^ k\<bar> \<le> 2 ^ k"
    by (rule round_half_even_near) simp
  ultimately show ?thesis by blast
qed

lemma formatBytes_B:
  assumes "0 \<le> b" "b < 2 ^ 10"
  shows "formatBytes b = itoa_nonneg b @ '' B''" and "CHR ''.'' \<notin> set (formatBytes b)"
proof -
  show eq: "formatBytes b = itoa_nonneg b @ '' B''"
    using assms by (simp add: formatBytes_def Sprintf_d_def)
  have "\<not> isDigit (CHR ''.'')" by (simp add: isDigit_def)
  with itoa_nonneg_digits [OF assms(1)] have "CHR ''.'' \<notin> set (itoa_nonneg b)" by blast
  then show "CHR ''.'' \<notin> set (formatBytes b)"
    unfolding eq by simp
qed

section \<open>Properties of the store queries\<close>

lemma scan_message_ok:
  "r_is_from_me r \<noteq> None \<Longrightarrow> scan_message r = Inr (message_of r)"
  by (auto simp: scan_message_def message_of_def split: option.splits)

lemma scan_rows_ok:
  "\<forall>r \<in> set rows. r_is_from_me r \<noteq> None \<Longrightarrow>
   scan_rows rows acc = Inr (acc @ map message_of rows)"
  by (induction rows arbitrary: acc) (simp_all add: scan_message_ok)

lemma scan_rows_Inr:
  "scan_rows rows acc = Inr ms \<Longrightarrow> ms = acc @ map message_of rows"
proof (induction rows arbitrary: acc)
  case Nil
  then show ?case by simp
next
  case (Cons r rows)
  from Cons.prems obtain b where b: "r_is_from_me r = Some b"
    by (cases "r_is_from_me r") (auto simp: scan_message_def)
  then have "scan_message r = Inr (message_of r)"
    by (simp add: scan_message_ok)
  with Cons.prems have "scan_rows rows (acc @ [message_of r]) = Inr ms" by simp
  from Cons.IH [OF this] show ?case by simp
qed

lemma date_order_filter:
  "date_order (filter Q R) = filter Q (date_order R)"
  by (simp add: date_order_def filter_sort)

lemma set_date_order [simp]: "set (date_order R) = set R"
  by (simp add: date_order_def)

lemma length_date_order [simp]: "length (date_order R) = length R"
  by (simp add: date_order_def)

lemma sorted_date_order: "sorted (map r_date (date_order R))"
  unfolding date_order_def by (rule sorted_sort_key)

lemma query_page_rows:
  assumes "db_fault st = None"
  shows "(if cursor = 0 then query_page st chat None limit
          else query_page st chat (Some cursor) limit)
     = Inr (take (nat limit)
              (rev (if cursor = 0 then date_order (chat_rows st chat)
                    else filter (\<lambda>r. r_ROWID r < cursor) (date_order (chat_rows st chat)))))"
proof (cases "cursor = 0")
  case True
  with assms show ?thesis by (simp add: query_page_def chat_rows_def)
next
  case False
  have "filter (\<lambda>r. r_chat_id r = chat \<and> r_ROWID r < cursor) (db_rows st)
          = filter (\<lambda>r. r_ROWID r < cursor) (chat_rows st chat)"
    by (auto simp: chat_rows_def conj_commute)
  with False assms show ?thesis
    by (simp add: query_page_def date_order_filter)
qed

lemma rev_take_rev:
  "rev (take n (rev P)) = drop (length P - n) P"
  by (simp add: rev_take)

lemma FetchMessages_Inr:
  assumes "FetchMessages st chat cursor k = Inr page"
  shows "page = map message_of (page_of (date_order (chat_rows st chat)) cursor k)"
    and "db_fault st = None"
proof -
  let ?K = "if k \<le> 0 then 200 else k"
  let ?P = "if cursor = 0 then date_order (chat_rows st chat)
            else filter (\<lambda>r. r_ROWID r < cursor) (date_order (chat_rows st chat))"
  show fault: "db_fault st = None"
  proof (cases "db_fault st")
    case None
    then show ?thesis .
  next
    case (Some e)
    then have "query_page st chat b n = Inl e" for b n
      by (simp add: query_page_def)
    then have "FetchMessages st chat cursor k = Inl e"
      by (simp add: FetchMessages_def Let_def)
    with assms show ?thesis by simp
  qed
  note q = query_page_rows [OF fault, of cursor chat ?K]
  from assms obtain ms where ms: "scan_rows (take (nat ?K) (rev ?P)) [] = Inr ms"
    and page: "page = rev ms"
    unfolding FetchMessages_def Let_def messagesPageSize_def q
    by (cases "scan_rows (take (nat ?K) (rev ?P)) []") auto
  from scan_rows_Inr [OF ms] page have "page = map message_of (rev (take (nat ?K) (rev ?P)))"
    by (simp add: rev_map)
  then show "page = map message_of (page_of (date_order (chat_rows st chat)) cursor k)"
    by (simp only: rev_take_rev page_of_def Let_def)
qed

lemma FetchMessages_page:
  assumes fault: "db_fault st = None"
    and scan: "\<forall>r \<in> set (chat_rows st chat). r_is_from_me r \<noteq> None"
  shows "FetchMessages st chat cursor k
           = Inr (map message_of (page_of (date_order (chat_rows st chat)) cursor k))"
proof -
  let ?K = "if k \<le> 0 then 200 else k"
  let ?P = "if cursor = 0 then date_order (chat_rows st chat)
            else filter (\<lambda>r. r_ROWID r < cursor) (date_order (chat_rows st chat))"
  note q = query_page_rows [OF fault, of cursor chat ?K]
  have "\<forall>r \<in> set (take (nat ?K) (rev ?P)). r_is_from_me r \<noteq> None"
    using scan by (auto dest!: in_set_takeD split: if_splits)
  then have "scan_rows (take (nat ?K) (rev ?P)) []
               = Inr (map message_of (take (nat ?K) (rev ?P)))"
    by (simp add: scan_rows_ok)
  then have "FetchMessages st chat cursor k
               = Inr (rev (map message_of (take (nat ?K) (rev ?P))))"
    unfolding FetchMessages_def Let_def messagesPageSize_def q by simp
  also have "rev (map message_of (take (nat ?K) (rev ?P)))
               = map message_of (rev (take (nat ?K) (rev ?P)))"
    by (simp add: rev_map)
  finally show ?thesis
    by (simp only: rev_take_rev page_of_def Let_def)
qed

lemma FetchAllMessages_all:
  assumes fault: "db_fault st = None"
    and scan: "\<forall>r \<in> set (chat_rows st chat). r_is_from_me r \<noteq> None"
  shows "FetchAllMessages st chat = Inr (map message_of (date_order (chat_rows st chat)))"
proof -
  have "\<forall>r \<in> set (date_order (chat_rows st chat)). r_is_from_me r \<noteq> None"
    using scan by simp
  then show ?thesis
    using fault by (simp add: FetchAllMessages_def query_all_def chat_rows_def scan_rows_ok)
qed

lemma FetchAllMessages_Inr:
  assumes "FetchAllMessages st chat = Inr all"
  shows "all = map message_of (date_order (chat_rows st chat))"
proof (cases "db_fault st")
  case None
  with assms have "scan_rows (date_order (chat_rows st chat)) [] = Inr all"
    by (simp add: FetchAllMessages_def query_all_def chat_rows_def)
  from scan_rows_Inr [OF this] show ?thesis by simp
next
  case (Some e)
  with assms show ?thesis by (simp add: FetchAllMessages_def query_all_def)
qed

lemma filter_less_takeWhile:
  fixes g :: "'a \<Rightarrow> int"
  shows "sorted_wrt (\<lambda>a b. g a < g b) S \<Longrightarrow>
         filter (\<lambda>r. g r < c) S = takeWhile (\<lambda>r. g r < c) S"
proof (induction S)
  case Nil
  show ?case by simp
next
  case (Cons a S)
  show ?case
  proof (cases "g a < c")
    case True
    with Cons show ?thesis by simp
  next
    case False
    with Cons.prems have "\<forall>r \<in> set S. \<not> g r < c" by auto
    then have "filter (\<lambda>r. g r < c) S = []" by (simp add: filter_empty_conv)
    with False show ?thesis by simp
  qed
qed

lemma takeWhile_less_nth:
  fixes g :: "'a \<Rightarrow> int"
  shows "sorted_wrt (\<lambda>a b. g a < g b) S \<Longrightarrow> n < length S \<Longrightarrow>
         takeWhile (\<lambda>r. g r < g (S ! n)) S = take n S"
proof (induction S arbitrary: n)
  case Nil
  then show ?case by simp
next
  case (Cons a S)
  show ?case
  proof (cases n)
    case 0
    then show ?thesis by simp
  next
    case (Suc j)
    with Cons.prems have j: "j < length S" by simp
    then have "S ! j \<in> set S" by simp
    with Cons.prems(1) have "g a < g (S ! j)" by simp
    moreover from Cons.prems(1) have "sorted_wrt (\<lambda>a b. g a < g b) S" by simp
    ultimately show ?thesis
      using Cons.IH [of j] j Suc by simp
  qed
qed

lemma Min_strict_sorted:
  fixes xs :: "int list"
  shows "sorted_wrt (<) xs \<Longrightarrow> xs \<noteq> [] \<Longrightarrow> Min (set xs) = hd xs"
proof (cases xs)
  case Nil
  assume "xs \<noteq> []" with Nil show ?thesis by simp
next
  case (Cons a as)
  assume "sorted_wrt (<) xs"
  with Cons have "\<forall>y \<in> set as. a < y" by simp
  then have "Min (insert a (set as)) = a"
    by (intro Min_eqI) (auto intro: less_imp_le)
  with Cons show ?thesis by simp
qed

lemma chronological_ids_order:
  assumes "chronological_ids R"
  shows "date_order R = sort_key r_ROWID R"
    and "sorted_wrt (\<lambda>a b. r_ROWID a < r_ROWID b) (date_order R)"
proof -
  let ?R' = "sort_key r_ROWID R"
  from assms have d: "distinct (map r_ROWID R)"
    and m: "\<forall>r \<in> set R. \<forall>r' \<in> set R. r_ROWID r < r_ROWID r' \<longrightarrow> r_date r \<le> r_date r'"
    by (simp_all add: chronological_ids_def)
  have "sorted (map r_ROWID ?R')" by (rule sorted_sort_key)
  moreover have "distinct (map r_ROWID ?R')"
    using d by (simp add: distinct_map)
  ultimately have "sorted_wrt (<) (map r_ROWID ?R')"
    by (simp add: strict_sorted_iff)
  then have s: "sorted_wrt (\<lambda>a b. r_ROWID a < r_ROWID b) ?R'"
    by (simp add: sorted_wrt_map)
  have "sorted_wrt (\<lambda>a b. r_date a \<le> r_date b) ?R'"
  proof (rule sorted_wrt_mono_rel [OF _ s])
    fix a b assume "a \<in> set ?R'" "b \<in> set ?R'" "r_ROWID a < r_ROWID b"
    with m show "r_date a \<le> r_date b" by simp
  qed
  then have "sorted (map r_date ?R')"
    by (simp add: sorted_wrt_map)
  then show e: "date_order R = ?R'"
    unfolding date_order_def by (rule sort_key_id_if_sorted)
  from s show "sorted_wrt (\<lambda>a b. r_ROWID a < r_ROWID b) (date_order R)"
    by (simp only: e)
qed

lemma concat_pages_prefix:
  assumes fault: "db_fault st = None"
    and scan: "\<forall>r \<in> set (chat_rows st chat). r_is_from_me r \<noteq> None"
    and chron: "chronological_ids (chat_rows st chat)"
  shows "(n = length (date_order (chat_rows st chat)) \<and> cursor = 0)
           \<or> (n < length (date_order (chat_rows st chat))
               \<and> cursor = r_ROWID (date_order (chat_rows st chat) ! n)) \<Longrightarrow>
         n < fuel \<Longrightarrow>
         concat_pages fuel st chat k cursor
           = Some (Inr (map message_of (take n (date_order (chat_rows st chat)))))"
proof (induction n arbitrary: cursor fuel rule: less_induct)
  case (less n)
  let ?S = "date_order (chat_rows st chat)"
  let ?K = "nat (if k \<le> 0 then 200 else k)"
  have K: "0 < ?K" by simp
  have sorted: "sorted_wrt (\<lambda>a b. r_ROWID a < r_ROWID b) ?S"
    using chron by (rule chronological_ids_order(2))
  have nz: "\<forall>r \<in> set ?S. r_ROWID r \<noteq> 0"
    using chron by (simp add: chronological_ids_def)
  from less.prems(2) obtain f where fuel: "fuel = Suc f" and f: "n \<le> f"
    by (cases fuel) auto
  have n_le: "n \<le> length ?S" using less.prems(1) by auto
  have P: "(if cursor = 0 then ?S else filter (\<lambda>r. r_ROWID r < cursor) ?S) = take n ?S"
  proof (cases "n = length ?S \<and> cursor = 0")
    case True
    then show ?thesis by simp
  next
    case False
    with less.prems(1) have n: "n < length ?S" and c: "cursor = r_ROWID (?S ! n)" by auto
    from n have "?S ! n \<in> set ?S" by (rule nth_mem)
    with nz have "r_ROWID (?S ! n) \<noteq> 0" by (rule bspec)
    with c have "cursor \<noteq> 0" by simp
    moreover have "filter (\<lambda>r. r_ROWID r < cursor) ?S = takeWhile (\<lambda>r. r_ROWID r < cursor) ?S"
      using sorted by (rule filter_less_takeWhile)
    moreover have "takeWhile (\<lambda>r. r_ROWID r < cursor) ?S = take n ?S"
      unfolding c using sorted n by (rule takeWhile_less_nth)
    ultimately show ?thesis by simp
  qed
  have page: "FetchMessages st chat cursor k
                = Inr (map message_of (drop (n - ?K) (take n ?S)))"
    using FetchMessages_page [OF fault scan, of cursor k] n_le
    by (simp add: page_of_def P Let_def)
  show ?case
  proof (cases "n = 0")
    case True
    with page fuel show ?thesis by simp
  next
    case False
    let ?n' = "n - ?K"
    let ?page = "drop ?n' (take n ?S)"
    from False K have n': "?n' < n" by arith
    with n_le have n'S: "?n' < length ?S" by arith
    from n' n_le have ne: "?page \<noteq> []" by simp
    have "sorted_wrt (\<lambda>a b. r_ROWID a < r_ROWID b) ?page"
      using sorted by (intro sorted_wrt_drop sorted_wrt_take)
    then have "sorted_wrt (<) (map r_ROWID ?page)"
      by (simp add: sorted_wrt_map)
    with ne have "Min (set (map r_ROWID ?page)) = hd (map r_ROWID ?page)"
      by (intro Min_strict_sorted) simp_all
    also have "\<dots> = r_ROWID (hd ?page)" using ne by (simp add: hd_map)
    also have "hd ?page = ?S ! ?n'"
      using n' n_le by (simp add: hd_drop_conv_nth)
    finally have m: "Min (set (map ROWID (map message_of ?page))) = r_ROWID (?S ! ?n')"
      by (simp add: message_of_def comp_def)
    from n' f have "?n' < f" by arith
    with less.IH [OF n', of "r_ROWID (?S ! ?n')" f] n'S
    have older: "concat_pages f st chat k (r_ROWID (?S ! ?n'))
                   = Some (Inr (map message_of (take ?n' ?S)))"
      by simp
    have "take ?n' ?S @ ?page = take n ?S"
    proof -
      have "take ?n' ?S = take ?n' (take n ?S)" using n' by (simp add: min_def)
      then show ?thesis by (simp only: append_take_drop_id)
    qed
    then have "map message_of (take ?n' ?S) @ map message_of ?page = map message_of (take n ?S)"
      by (simp only: map_append [symmetric])
    with page fuel ne m older show ?thesis
      by (simp del: map_map)
  qed
qed

lemma page_of_facts:
  shows "length (page_of S cursor k) \<le> nat (if k \<le> 0 then 200 else k)"
    and "set (page_of S cursor k) \<subseteq> set S"
    and "cursor \<noteq> 0 \<Longrightarrow> \<forall>r \<in> set (page_of S cursor k). r_ROWID r < cursor"
    and "sorted (map r_date S) \<Longrightarrow> sorted (map r_date (page_of S cursor k))"
proof -
  let ?P = "if cursor = 0 then S else filter (\<lambda>r. r_ROWID r < cursor) S"
  let ?K = "nat (if k \<le> 0 then 200 else k)"
  have p: "page_of S cursor k = drop (length ?P - ?K) ?P"
    by (simp add: page_of_def Let_def)
  show "length (page_of S cursor k) \<le> ?K"
    unfolding p by simp
  have sub: "set (drop (length ?P - ?K) ?P) \<subseteq> set ?P"
    by (rule set_drop_subset)
  then show "set (page_of S cursor k) \<subseteq> set S"
    unfolding p by (auto split: if_splits)
  show "\<forall>r \<in> set (page_of S cursor k). r_ROWID r < cursor" if "cursor \<noteq> 0"
    using sub that unfolding p by auto
  show "sorted (map r_date (page_of S cursor k))" if "sorted (map r_date S)"
  proof -
    from that have "sorted (map r_date ?P)" by (simp add: sorted_filter)
    then have "sorted (drop (length ?P - ?K) (map r_date ?P))"
      by (rule sorted_wrt_drop)
    then show ?thesis unfolding p by (simp add: drop_map)
  qed
qed

lemma Time_Before_UnixNano:
  assumes "0 \<le> t_nsec t" "t_nsec t < 1000000000" "0 \<le> t_nsec u" "t_nsec u < 1000000000"
  shows "Time_Before t u \<longleftrightarrow> Time_UnixNano t < Time_UnixNano u"
  using assms unfolding Time_Before_def Time_UnixNano_def by auto

lemma appleNanosToTime_nsec:
  "0 \<le> t_nsec (appleNanosToTime d) \<and> t_nsec (appleNanosToTime d) < 1000000000"
proof (cases "d = 0")
  case True
  then show ?thesis by (simp add: appleNanosToTime_def Time_zero_def)
next
  case False
  have r: "- 1000000000 < d smod 1000000000" "d smod 1000000000 < 1000000000"
    using smod_billion_range [of d] by simp_all
  from time_Unix_UnixNano(2,3) [OF r] False show ?thesis
    by (simp add: appleNanosToTime_def Let_def)
qed

lemma appleNanosToTime_zero_UnixNano:
  "Time_UnixNano (appleNanosToTime 0) = - unixToInternal * 1000000000"
  by (simp add: appleNanosToTime_def Time_zero_def Time_UnixNano_def)

lemma appleNanosToTime_not_before:
  assumes "a \<le> b" and "b = 0 \<Longrightarrow> 0 \<le> a"
  shows "\<not> Time_Before (appleNanosToTime b) (appleNanosToTime a)"
proof -
  have "Time_UnixNano (appleNanosToTime a) \<le> Time_UnixNano (appleNanosToTime b)"
  proof (cases "a = 0")
    case a0: True
    show ?thesis
    proof (cases "b = 0")
      case True
      with a0 show ?thesis by simp
    next
      case False
      with a0 assms(1) have "0 < b" by simp
      with appleNanosToTime_UnixNano [OF False] a0 show ?thesis
        by (simp add: appleNanosToTime_zero_UnixNano unixToInternal_def appleEpochOffset_def)
    qed
  next
    case a1: False
    show ?thesis
    proof (cases "b = 0")
      case True
      with assms a1 show ?thesis by simp
    next
      case False
      with appleNanosToTime_UnixNano [OF False] appleNanosToTime_UnixNano [OF a1] assms(1)
      show ?thesis by simp
    qed
  qed
  then show ?thesis
    using appleNanosToTime_nsec [of a] appleNanosToTime_nsec [of b]
    by (simp add: Time_Before_UnixNano)
qed

lemma chronological_dates:
  assumes z: "zero_date_apart R" and sub: "set rows \<subseteq> set R"
    and s: "sorted (map r_date rows)"
  shows "sorted_wrt (\<lambda>a b. \<not> Time_Before (Date b) (Date a)) (map message_of rows)"
proof -
  from s have s': "sorted_wrt (\<lambda>a b. r_date a \<le> r_date b) rows"
    by (simp add: sorted_wrt_map)
  have "sorted_wrt (\<lambda>a b. \<not> Time_Before (Date (message_of b)) (Date (message_of a))) rows"
  proof (rule sorted_wrt_mono_rel [OF _ s'])
    fix a b assume ab: "a \<in> set rows" "b \<in> set rows" "r_date a \<le> r_date b"
    have "0 \<le> r_date a" if "r_date b = 0"
    proof -
      from ab(2) sub that have "list_ex (\<lambda>r. r_date r = 0) R"
        by (auto simp: list_ex_iff)
      with z have "list_all (\<lambda>r. 0 \<le> r_date r) R"
        by (simp add: zero_date_apart_def)
      with ab(1) sub show ?thesis by (auto simp: list_all_iff)
    qed
    with ab(3) have "\<not> Time_Before (appleNanosToTime (r_date b)) (appleNanosToTime (r_date a))"
      by (rule appleNanosToTime_not_before)
    then show "\<not> Time_Before (Date (message_of b)) (Date (message_of a))"
      by (simp add: message_of_def)
  qed
  then show ?thesis by (simp add: sorted_wrt_map)
qed

lemma page_of_messages:
  "map message_of (page_of S cursor k)
     = (let P = (if cursor = 0 then map message_of S
                 else filter (\<lambda>m. ROWID m < cursor) (map message_of S))
        in drop (length P - nat (if k \<le> 0 then 200 else k)) P)"
proof -
  have "filter (\<lambda>m. ROWID m < cursor) (map message_of S)
          = map message_of (filter (\<lambda>r. r_ROWID r < cursor) S)"
    by (simp add: filter_map comp_def message_of_def)
  then show ?thesis
    by (simp add: page_of_def Let_def drop_map)
qed

section \<open>Properties of the coordinator's result handlers\<close>

lemma on_attachmentsLoaded_ok:
  "l_items (attachmentList (fst (on_attachmentsLoaded L m atts None))) = atts"
  "l_Title (attachmentList (fst (on_attachmentsLoaded L m atts None)))
     = ''Attachments '' @ emdash @ '' '' @ Sprintf_d (int (length atts)) @ '' files''"
  "(fst (on_attachmentsLoaded L m atts None))\<lparr>attachmentList := attachmentList m\<rparr> = m"
  by (simp_all add: on_attachmentsLoaded_def list_SetItems_def Let_def split: prod.splits)

lemma Update_attachmentsLoaded:
  "Update L m (attachmentsLoadedMsg atts e) = on_attachmentsLoaded L m atts e"
  by (simp add: Update_def)

lemma Update_messagesLoaded:
  "Update L m (messagesLoadedMsg msgs c p e) = on_messagesLoaded L m msgs c p e"
  by (simp add: Update_def)

lemma Update_searchResults:
  "Update L m (searchResultsMsg rs t e) = on_searchResults L m rs t e"
  by (simp add: Update_def)

lemma on_messagesLoaded_err:
  "on_messagesLoaded L m msgs c p (Some e) = (m\<lparr>err := Some e\<rparr>, [])"
  by (simp add: on_messagesLoaded_def)


lemma on_searchResults_err:
  "on_searchResults L m rs t (Some e) = (m\<lparr>searching := False, err := Some e\<rparr>, [])"
  by (simp add: on_searchResults_def)

lemma on_attachmentsLoaded_err:
  "on_attachmentsLoaded L m atts (Some e) = (m\<lparr>err := Some e\<rparr>, [])"
  by (simp add: on_attachmentsLoaded_def)

lemma updateMessageView_no_fetch_while_loading:
  "loading m \<or> allLoaded m \<Longrightarrow> fetchMessagesCmd c cur pre \<notin> set (snd (updateMessageView L m key))"
  by (auto simp: updateMessageView_def lift_cmds_def Let_def split: prod.splits)

section \<open>Claims about paging\<close>

text \<open>
  Claim C1 says that for every conversation and every page size, the pages fetched one
  after the other from cursor 0, each with the smallest id of the page before as cursor,
  put together oldest first, are exactly the result of \<^verbatim>\<open>FetchAllMessages\<close>, and that every
  page is in chronological order. The pages are ordered by date but cut off by id, cursor 0
  stands for "no cursor", and a stored date 0 is decoded as the zero time. So the claim fails
  in three ways:
  in a conversation whose message 1 is dated after its message 2, the first page of size 1
  is message 1, the next page (ids below 1) is empty, and message 2 is never fetched;
  in a conversation with the ids 0 and 1 the page after message 1 is message 0, whose id as a
  cursor asks for the newest page again, and the paging never comes to an empty page;
  and a page with the stored dates -5 and 0 is returned in this order, although the date
  decoded from 0 lies before the date decoded from -5.
\<close>

theorem C1_paging_counterexample:
  "map_option (map_sum id (map ROWID)) (concat_pages 3 store_out_of_step 1 1 0) = Some (Inr [1])
   \<and> map_sum id (map ROWID) (FetchAllMessages store_out_of_step 1) = Inr [2, 1]
   \<and> concat_pages 3 store_out_of_step 1 1 0 \<noteq> Some (FetchAllMessages store_out_of_step 1)
   \<and> map_sum id (map ROWID) (FetchAllMessages store_zero_id 1) = Inr [0, 1]
   \<and> map_sum id (map ROWID) (FetchMessages store_zero_id 1 0 1) = Inr [1]
   \<and> map_sum id (map ROWID) (FetchMessages store_zero_id 1 1 1) = Inr [0]
   \<and> concat_pages 6 store_zero_id 1 1 0 = None
   \<and> FetchMessages store_zero_date 1 0 2
       = Inr [message_of (example_row 1 1 (- 5)), message_of (example_row 1 2 0)]
   \<and> Time_Before (Date (message_of (example_row 1 2 0)))
                  (Date (message_of (example_row 1 1 (- 5))))"
proof -
  have a: "map_option (map_sum id (map ROWID)) (concat_pages 3 store_out_of_step 1 1 0)
             = Some (Inr [1])"
    by code_simp
  have b: "map_sum id (map ROWID) (FetchAllMessages store_out_of_step 1) = Inr [2, 1]"
    by code_simp
  have c: "concat_pages 3 store_out_of_step 1 1 0 \<noteq> Some (FetchAllMessages store_out_of_step 1)"
  proof
    assume "concat_pages 3 store_out_of_step 1 1 0 = Some (FetchAllMessages store_out_of_step 1)"
    with a have "Some (map_sum id (map ROWID) (FetchAllMessages store_out_of_step 1))
                   = Some (Inr [1])"
      by simp
    with b show False by simp
  qed
  have d: "map_sum id (map ROWID) (FetchAllMessages store_zero_id 1) = Inr [0, 1]"
    by code_simp
  have e: "map_sum id (map ROWID) (FetchMessages store_zero_id 1 0 1) = Inr [1]"
    by code_simp
  have f: "map_sum id (map ROWID) (FetchMessages store_zero_id 1 1 1) = Inr [0]"
    by code_simp
  have g: "concat_pages 6 store_zero_id 1 1 0 = None"
    by code_simp
  have h: "FetchMessages store_zero_date 1 0 2
       = Inr [message_of (example_row 1 1 (- 5)), message_of (example_row 1 2 0)]"
    by code_simp
  have i: "Time_Before (Date (message_of (example_row 1 2 0)))
                  (Date (message_of (example_row 1 1 (- 5))))"
    by code_simp
  from a b c d e f g h i show ?thesis by blast
qed

text \<open>
  Claim C1, amended. Take a conversation whose ids are in step with time (ids unique and not
  0, a larger id never meaning an earlier date; equal dates are allowed), in a store whose
  queries and row scans do not fail. Then for every page size the paging loop ends, and the
  pages it fetched, put together oldest first, are exactly the result of
  \<^verbatim>\<open>FetchAllMessages\<close>, with no id twice.
  In every store whose queries and row scans do not fail both functions return a result.
  And in every store, every page that \<^verbatim>\<open>FetchMessages\<close> returns is the newest messages of the
  conversation with an id below the cursor (the newest of all messages for cursor 0), as
  many as the page size (200 for a size that is not positive) when there are that many, in
  the order and with the content that \<^verbatim>\<open>FetchAllMessages\<close> gives them: ordered by stored
  date, oldest first, which is the chronological order of the decoded dates unless a stored
  date 0 stands beside a negative one.
\<close>

theorem C1_paging:
  "(db_fault st = None \<and> (\<forall>r \<in> set (chat_rows st chat). r_is_from_me r \<noteq> None)
      \<and> chronological_ids (chat_rows st chat) \<longrightarrow>
      (\<exists>fuel all. concat_pages fuel st chat k 0 = Some (Inr all)
                  \<and> FetchAllMessages st chat = Inr all
                  \<and> distinct (map ROWID all)))
   \<and> (db_fault st = None \<and> (\<forall>r \<in> set (chat_rows st chat). r_is_from_me r \<noteq> None) \<longrightarrow>
        (\<exists>page all. FetchMessages st chat cursor k = Inr page
                   \<and> FetchAllMessages st chat = Inr all))
   \<and> (FetchMessages st chat cursor k = Inr page \<longrightarrow>
        length page \<le> nat (if k \<le> 0 then 200 else k)
        \<and> (cursor \<noteq> 0 \<longrightarrow> (\<forall>m \<in> set page. ROWID m < cursor))
        \<and> (\<exists>rows. page = map message_of rows
                   \<and> rows = page_of (date_order (chat_rows st chat)) cursor k
                   \<and> sorted (map r_date rows))
        \<and> (zero_date_apart (chat_rows st chat) \<longrightarrow>
              sorted_wrt (\<lambda>a b. \<not> Time_Before (Date b) (Date a)) page)
        \<and> (FetchAllMessages st chat = Inr all \<longrightarrow>
              page = (let P = (if cursor = 0 then all
                               else filter (\<lambda>m. ROWID m < cursor) all)
                      in drop (length P - nat (if k \<le> 0 then 200 else k)) P)))"
proof -
  let ?S = "date_order (chat_rows st chat)"
  let ?rows = "page_of ?S cursor k"
  have paging: "\<exists>fuel all. concat_pages fuel st chat k 0 = Some (Inr all)
                  \<and> FetchAllMessages st chat = Inr all
                  \<and> distinct (map ROWID all)"
    if fault: "db_fault st = None"
      and scan: "\<forall>r \<in> set (chat_rows st chat). r_is_from_me r \<noteq> None"
      and chron: "chronological_ids (chat_rows st chat)"
  proof -
    have "concat_pages (Suc (length ?S)) st chat k 0
            = Some (Inr (map message_of (take (length ?S) ?S)))"
      using fault scan chron by (rule concat_pages_prefix) simp_all
    then have c: "concat_pages (Suc (length ?S)) st chat k 0 = Some (Inr (map message_of ?S))"
      by simp
    have a: "FetchAllMessages st chat = Inr (map message_of ?S)"
      using fault scan by (rule FetchAllMessages_all)
    have "distinct (map r_ROWID (sort_key r_ROWID (chat_rows st chat)))"
      using chron by (simp add: chronological_ids_def distinct_map)
    then have "distinct (map r_ROWID ?S)"
      by (simp only: chronological_ids_order(1) [OF chron])
    then have d: "distinct (map ROWID (map message_of ?S))"
      by (simp add: message_of_def comp_def)
    from c a d show ?thesis by blast
  qed
  have succeeds: "\<exists>page all. FetchMessages st chat cursor k = Inr page
                   \<and> FetchAllMessages st chat = Inr all"
    if fault: "db_fault st = None"
      and scan: "\<forall>r \<in> set (chat_rows st chat). r_is_from_me r \<noteq> None"
    using FetchMessages_page [OF fault scan, of cursor k] FetchAllMessages_all [OF fault scan]
    by blast
  have pagefacts: "length page \<le> nat (if k \<le> 0 then 200 else k)
        \<and> (cursor \<noteq> 0 \<longrightarrow> (\<forall>m \<in> set page. ROWID m < cursor))
        \<and> (\<exists>rows. page = map message_of rows
                   \<and> rows = page_of (date_order (chat_rows st chat)) cursor k
                   \<and> sorted (map r_date rows))
        \<and> (zero_date_apart (chat_rows st chat) \<longrightarrow>
              sorted_wrt (\<lambda>a b. \<not> Time_Before (Date b) (Date a)) page)
        \<and> (FetchAllMessages st chat = Inr all \<longrightarrow>
              page = (let P = (if cursor = 0 then all
                               else filter (\<lambda>m. ROWID m < cursor) all)
                      in drop (length P - nat (if k \<le> 0 then 200 else k)) P))"
    if fm: "FetchMessages st chat cursor k = Inr page"
  proof -
    have p: "page = map message_of ?rows"
      using fm by (rule FetchMessages_Inr(1))
    have l: "length page \<le> nat (if k \<le> 0 then 200 else k)"
      unfolding p using page_of_facts(1) [of ?S cursor k] by simp
    have b: "cursor \<noteq> 0 \<longrightarrow> (\<forall>m \<in> set page. ROWID m < cursor)"
      unfolding p using page_of_facts(3) [of cursor ?S k] by (auto simp: message_of_def)
    have s: "sorted (map r_date ?rows)"
      using sorted_date_order by (rule page_of_facts(4))
    have sub: "set ?rows \<subseteq> set (chat_rows st chat)"
      using page_of_facts(2) [of ?S cursor k] by simp
    have c: "zero_date_apart (chat_rows st chat) \<longrightarrow>
              sorted_wrt (\<lambda>a b. \<not> Time_Before (Date b) (Date a)) page"
      unfolding p using sub s by (auto intro: chronological_dates)
    have a: "FetchAllMessages st chat = Inr all \<longrightarrow>
              page = (let P = (if cursor = 0 then all
                               else filter (\<lambda>m. ROWID m < cursor) all)
                      in drop (length P - nat (if k \<le> 0 then 200 else k)) P)"
    proof
      assume "FetchAllMessages st chat = Inr all"
      then have "all = map message_of ?S" by (rule FetchAllMessages_Inr)
      with p page_of_messages [of ?S cursor k] show
        "page = (let P = (if cursor = 0 then all else filter (\<lambda>m. ROWID m < cursor) all)
                 in drop (length P - nat (if k \<le> 0 then 200 else k)) P)"
        by simp
    qed
    from p l b s c a show ?thesis by blast
  qed
  from paging succeeds pagefacts show ?thesis by blast
qed

theorem C1_paging_witness:
  "db_fault store_equal_dates = None
   \<and> list_all (\<lambda>r. r_is_from_me r \<noteq> None) (chat_rows store_equal_dates 1)
   \<and> chronological_ids (chat_rows store_equal_dates 1)
   \<and> zero_date_apart (chat_rows store_equal_dates 1)
   \<and> (\<exists>fuel all. concat_pages fuel store_equal_dates 1 2 0 = Some (Inr all)
                 \<and> FetchAllMessages store_equal_dates 1 = Inr all
                 \<and> distinct (map ROWID all))
   \<and> concat_pages 3 store_equal_dates 1 2 0 = Some (FetchAllMessages store_equal_dates 1)
   \<and> map_sum id (map ROWID) (FetchAllMessages store_equal_dates 1) = Inr [1, 2, 3]
   \<and> FetchMessages store_equal_dates 1 3 2
       = Inr [message_of (example_row 1 1 10), message_of (example_row 1 2 10)]
   \<and> length [message_of (example_row 1 1 10), message_of (example_row 1 2 10)] \<le> nat 2
   \<and> sorted_wrt (\<lambda>a b. \<not> Time_Before (Date b) (Date a))
        [message_of (example_row 1 1 10), message_of (example_row 1 2 10)]
   \<and> map_sum id (map ROWID) (FetchMessages store_equal_dates 1 0 2) = Inr [2, 3]
   \<and> map_sum id (map ROWID) (FetchMessages store_equal_dates 1 2 2) = Inr [1]
   \<and> concat_pages 4 store_in_step 1 2 0 = Some (FetchAllMessages store_in_step 1)"
proof -
  let ?page = "[message_of (example_row 1 1 10), message_of (example_row 1 2 10)]"
  have h1: "db_fault store_equal_dates = None" by code_simp
  have h2': "list_all (\<lambda>r. r_is_from_me r \<noteq> None) (chat_rows store_equal_dates 1)"
    by code_simp
  then have h2: "\<forall>r \<in> set (chat_rows store_equal_dates 1). r_is_from_me r \<noteq> None"
    by (simp add: list_all_iff)
  have h3: "chronological_ids (chat_rows store_equal_dates 1)" by code_simp
  have h4: "zero_date_apart (chat_rows store_equal_dates 1)" by code_simp
  have h5: "FetchMessages store_equal_dates 1 3 2 = Inr ?page" by code_simp
  from h1 h2 h3 have h: "db_fault store_equal_dates = None
      \<and> (\<forall>r \<in> set (chat_rows store_equal_dates 1). r_is_from_me r \<noteq> None)
      \<and> chronological_ids (chat_rows store_equal_dates 1)"
    by blast
  note t = C1_paging [of store_equal_dates 1 2 3 ?page "[]"]
  note w1 = t [THEN conjunct1, THEN mp, OF h]
  note w3 = t [THEN conjunct2, THEN conjunct2, THEN mp, OF h5]
  have w3a: "length ?page \<le> nat 2"
    using w3 [THEN conjunct1] by simp
  have w3b: "sorted_wrt (\<lambda>a b. \<not> Time_Before (Date b) (Date a)) ?page"
    using w3 [THEN conjunct2, THEN conjunct2, THEN conjunct2, THEN conjunct1] h4 by blast
  have v1: "concat_pages 3 store_equal_dates 1 2 0 = Some (FetchAllMessages store_equal_dates 1)"
    by code_simp
  have v2: "map_sum id (map ROWID) (FetchAllMessages store_equal_dates 1) = Inr [1, 2, 3]"
    by code_simp
  have v3: "map_sum id (map ROWID) (FetchMessages store_equal_dates 1 0 2) = Inr [2, 3]"
    by code_simp
  have v4: "map_sum id (map ROWID) (FetchMessages store_equal_dates 1 2 2) = Inr [1]"
    by code_simp
  have v5: "concat_pages 4 store_in_step 1 2 0 = Some (FetchAllMessages store_in_step 1)"
    by code_simp
  from h1 h2' h3 h4 w1 v1 v2 h5 w3a w3b v3 v4 v5 show ?thesis by blast
qed

section \<open>Claims about stale page results\<close>




section \<open>Claims about failed fetches\<close>

text \<open>
  Claim C4 says that a page-fetch, search or attachment-list result that carries an error
  leaves the window and the other buffers unchanged, clears the in-flight loading flag and
  reports a status without ending the session. For all three results \<^verbatim>\<open>Update\<close> records the
  error and returns no command, and the buffers stay as they are; the search handler clears
  its flag \<^verbatim>\<open>searching\<close> before it tests the error. The page handler returns before it
  reaches \<^verbatim>\<open>m.loading = false\<close>: after a failed page fetch for the active thread the flag
  \<^verbatim>\<open>loading\<close> is still set, and while it is set no key in the message view issues another
  fetch.
\<close>

theorem C4_loading_flag_not_cleared:
  "Update L m (messagesLoadedMsg msgs c p (Some e)) = (m\<lparr>err := Some e\<rparr>, [])
   \<and> loading (fst (Update L m (messagesLoadedMsg msgs c p (Some e)))) = loading m
   \<and> Update L m (searchResultsMsg rs t (Some e)) = (m\<lparr>searching := False, err := Some e\<rparr>, [])
   \<and> Update L m (attachmentsLoadedMsg atts (Some e)) = (m\<lparr>err := Some e\<rparr>, [])
   \<and> activeChatID model_in_thread = 1
   \<and> loading model_in_thread
   \<and> loading (fst (Update simple_lib model_in_thread
                     (messagesLoadedMsg [] 1 True (Some QueryError))))
   \<and> fetchMessagesCmd c' cur pre
        \<notin> set (snd (updateMessageView L
                       (fst (Update simple_lib model_in_thread
                               (messagesLoadedMsg [] 1 True (Some QueryError)))) key))"
proof -
  have l: "loading model_in_thread" and a: "activeChatID model_in_thread = 1"
    by (simp_all add: model_in_thread_def)
  have u: "fst (Update simple_lib model_in_thread (messagesLoadedMsg [] 1 True (Some QueryError)))
             = model_in_thread\<lparr>err := Some QueryError\<rparr>"
    by (simp add: Update_messagesLoaded on_messagesLoaded_err)
  have "loading (model_in_thread\<lparr>err := Some QueryError\<rparr>)" using l by simp
  then have "fetchMessagesCmd c' cur pre
      \<notin> set (snd (updateMessageView L (model_in_thread\<lparr>err := Some QueryError\<rparr>) key))"
    by (intro updateMessageView_no_fetch_while_loading) simp
  with l a u show ?thesis
    by (simp add: Update_messagesLoaded on_messagesLoaded_err Update_searchResults
          on_searchResults_err Update_attachmentsLoaded on_attachmentsLoaded_err)
qed

section \<open>Claims about the time decoder\<close>

text \<open>
  Claim C5. \<^verbatim>\<open>appleNanosToTime 0\<close> is the zero time (the "unset" sentinel, which is not the
  Unix epoch \<^verbatim>\<open>time.Unix(0, 0)\<close>), and for every nonzero \<open>nanos\<close> the result is
  \<^verbatim>\<open>time.Unix(unixSeconds, remainder)\<close> with \<open>unixSeconds = nanos / 10\<^sup>9 + 978307200\<close> and
  \<open>remainder = nanos % 10\<^sup>9\<close> (Go's truncating division). For a nonzero \<^verbatim>\<open>int64\<close> argument
  that value is never the sentinel, and as an absolute time it lies \<open>nanos\<close> nanoseconds
  after the instant 978307200 seconds past the Unix epoch.
\<close>

theorem C5_appleNanosToTime:
  "appleNanosToTime 0 = Time_zero
   \<and> Time_IsZero (appleNanosToTime 0)
   \<and> appleNanosToTime 0 \<noteq> time_Unix 0 0
   \<and> appleEpochOffset = 978307200
   \<and> (nanos \<noteq> 0 \<longrightarrow>
        appleNanosToTime nanos
          = time_Unix (nanos sdiv 1000000000 + appleEpochOffset) (nanos smod 1000000000)
        \<and> Time_UnixNano (appleNanosToTime nanos) = nanos + 978307200 * 1000000000
        \<and> (int64 nanos \<longrightarrow> \<not> Time_IsZero (appleNanosToTime nanos)))"
proof -
  have a: "appleNanosToTime 0 = Time_zero"
    by (simp add: appleNanosToTime_def)
  have b: "appleNanosToTime 0 \<noteq> time_Unix 0 0"
    by (simp add: appleNanosToTime_def Time_zero_def time_Unix_def unixToInternal_def)
  have c: "Time_IsZero (appleNanosToTime 0)"
    by (simp add: appleNanosToTime_def Time_zero_def Time_IsZero_def)
  have d: "appleEpochOffset = 978307200"
    by (simp add: appleEpochOffset_def)
  have e: "nanos \<noteq> 0 \<Longrightarrow> appleNanosToTime nanos
          = time_Unix (nanos sdiv 1000000000 + appleEpochOffset) (nanos smod 1000000000)"
    by (simp add: appleNanosToTime_def Let_def)
  have f: "nanos \<noteq> 0 \<Longrightarrow>
      Time_UnixNano (appleNanosToTime nanos) = nanos + 978307200 * 1000000000"
    using appleNanosToTime_UnixNano [of nanos] by (simp add: d)
  have g: "nanos \<noteq> 0 \<Longrightarrow> int64 nanos \<Longrightarrow> \<not> Time_IsZero (appleNanosToTime nanos)"
    by (rule appleNanosToTime_not_zero)
  from a b c d e f g show ?thesis by blast
qed

theorem C5_appleNanosToTime_witness:
  "(740142000000000000 :: int) \<noteq> 0 \<and> int64 740142000000000000
   \<and> appleNanosToTime 740142000000000000 = time_Unix 1718449200 0
   \<and> Time_Unix (appleNanosToTime 740142000000000000) = 1718449200
   \<and> \<not> Time_IsZero (appleNanosToTime 740142000000000000)
   \<and> appleNanosToTime (- 1500000000) = time_Unix 978307199 (- 500000000)
   \<and> Time_UnixNano (appleNanosToTime (- 1500000000)) = 978307198500000000"
proof -
  have q: "(740142000000000000 :: int) sdiv 1000000000 + appleEpochOffset = 1718449200"
    "(740142000000000000 :: int) smod 1000000000 = 0"
    "(- 1500000000 :: int) sdiv 1000000000 + appleEpochOffset = 978307199"
    "(- 1500000000 :: int) smod 1000000000 = - 500000000"
    by (simp_all add: signed_divide_int_def signed_modulo_int_def appleEpochOffset_def)
  have n1: "(740142000000000000 :: int) \<noteq> 0" and n2: "(- 1500000000 :: int) \<noteq> 0"
    by simp_all
  have i: "int64 740142000000000000" by (simp add: int64_def)
  note w1 = C5_appleNanosToTime [of 740142000000000000, THEN conjunct2, THEN conjunct2, THEN conjunct2,
      THEN conjunct2, THEN mp, OF n1, unfolded q]
  note w2 = C5_appleNanosToTime [of "- 1500000000", THEN conjunct2, THEN conjunct2, THEN conjunct2,
      THEN conjunct2, THEN mp, OF n2, unfolded q]
  have a: "appleNanosToTime 740142000000000000 = time_Unix 1718449200 0"
    by (rule w1 [THEN conjunct1])
  have b: "\<not> Time_IsZero (appleNanosToTime 740142000000000000)"
    by (rule w1 [THEN conjunct2, THEN conjunct2, THEN mp, OF i])
  have c: "Time_Unix (appleNanosToTime 740142000000000000) = 1718449200"
    unfolding a by (simp add: time_Unix_def Time_Unix_def)
  have d: "appleNanosToTime (- 1500000000) = time_Unix 978307199 (- 500000000)"
    by (rule w2 [THEN conjunct1])
  have e: "Time_UnixNano (appleNanosToTime (- 1500000000)) = 978307198500000000"
    using w2 [THEN conjunct2, THEN conjunct1] by simp
  from n1 i a c b d e show ?thesis by blast
qed

section \<open>Claims about the attachment decoder\<close>

text \<open>
  Claim C6. \<^verbatim>\<open>parseAttachments\<close> splits its input on the outer separator \<^verbatim>\<open>";;"\<close>, splits
  each entry on the inner separator \<^verbatim>\<open>"||"\<close> into at most three fields, drops every entry
  whose content type and name are empty and whose size is 0, and emits one record for each
  other entry, in the order of the input. The pieces of both splits, joined again by their
  separator, give back what was split. In particular \<^verbatim>\<open>"image/jpeg||IMG_001.jpg||2048576"\<close>
  decodes to one record (label photo, file name \<^verbatim>\<open>IMG_001.jpg\<close>, size 2048576),
  the empty string to no record, and
  \<^verbatim>\<open>"image/heic||a.heic||1000;;video/quicktime||b.mov||5000"\<close> to two records in that
  order, labelled photo and video.
\<close>

theorem C6_parseAttachments:
  "parseAttachments raw =
     (if raw = '''' then []
      else map entry_record (filter (\<lambda>e. \<not> entry_is_empty e) (strings_Split raw '';;'')))
   \<and> strings_Join (strings_Split raw '';;'') '';;'' = raw
   \<and> strings_Join (entry_fields e) ''||'' = e
   \<and> 1 \<le> length (entry_fields e) \<and> length (entry_fields e) \<le> 3
   \<and> parseAttachments ''image/jpeg||IMG_001.jpg||2048576''
       = [\<lparr>TypeLabel = ''photo'', Filename = ''IMG_001.jpg'', Size = 2048576\<rparr>]
   \<and> parseAttachments '''' = []
   \<and> parseAttachments ''image/heic||a.heic||1000;;video/quicktime||b.mov||5000''
       = [\<lparr>TypeLabel = ''photo'', Filename = ''a.heic'', Size = 1000\<rparr>,
          \<lparr>TypeLabel = ''video'', Filename = ''b.mov'', Size = 5000\<rparr>]"
proof -
  have "strings_Join (strings_Split raw '';;'') '';;'' = raw"
    by (rule strings_Split_join) simp
  moreover have "strings_Join (entry_fields e) ''||'' = e"
    unfolding entry_fields_def by (rule strings_SplitN_join) simp_all
  moreover have "1 \<le> length (entry_fields e) \<and> length (entry_fields e) \<le> 3"
    unfolding entry_fields_def by (rule strings_SplitN_3_length)
  ultimately show ?thesis
    using parseAttachments_general [of raw] parseAttachments_example_single
      parseAttachments_example_empty parseAttachments_example_multiple
    by blast
qed

theorem C6_parseAttachments_witness:
  "parseAttachments ''text/vcard||me.vcf||12;;||||0;;application/pdf||a.pdf''
     = [\<lparr>TypeLabel = ''contact card'', Filename = ''me.vcf'', Size = 12\<rparr>,
        \<lparr>TypeLabel = ''PDF'', Filename = ''a.pdf'', Size = 0\<rparr>]
   \<and> strings_Split ''text/vcard||me.vcf||12;;||||0;;application/pdf||a.pdf'' '';;''
     = [''text/vcard||me.vcf||12'', ''||||0'', ''application/pdf||a.pdf'']
   \<and> entry_is_empty ''||||0''
   \<and> entry_fields ''a||b||c||d'' = [''a'', ''b'', ''c||d'']"
proof -
  let ?raw = "''text/vcard||me.vcf||12;;||||0;;application/pdf||a.pdf''"
  have s: "strings_Split ?raw '';;''
            = [''text/vcard||me.vcf||12'', ''||||0'', ''application/pdf||a.pdf'']"
    by code_simp
  have e: "entry_is_empty ''||||0''"
       "\<not> entry_is_empty ''text/vcard||me.vcf||12''"
       "\<not> entry_is_empty ''application/pdf||a.pdf''"
    by code_simp+
  have r: "entry_record ''text/vcard||me.vcf||12''
             = \<lparr>TypeLabel = ''contact card'', Filename = ''me.vcf'', Size = 12\<rparr>"
       "entry_record ''application/pdf||a.pdf''
             = \<lparr>TypeLabel = ''PDF'', Filename = ''a.pdf'', Size = 0\<rparr>"
    by code_simp+
  have f: "entry_fields ''a||b||c||d'' = [''a'', ''b'', ''c||d'']"
    by code_simp
  have ne: "?raw \<noteq> ''''" by simp
  from C6_parseAttachments [of ?raw "''a||b||c||d''", THEN conjunct1]
  have "parseAttachments ?raw
          = map entry_record (filter (\<lambda>e. \<not> entry_is_empty e) (strings_Split ?raw '';;''))"
    by (simp only: ne if_False)
  then have "parseAttachments ?raw
     = [\<lparr>TypeLabel = ''contact card'', Filename = ''me.vcf'', Size = 12\<rparr>,
        \<lparr>TypeLabel = ''PDF'', Filename = ''a.pdf'', Size = 0\<rparr>]"
    by (simp only: s e r filter.simps list.map if_True if_False not_True_eq_False not_False_eq_True)
  with s e(1) f show ?thesis by blast
qed

section \<open>Claims about the CSV field escaper\<close>

text \<open>
  Claim C7. For every string \<open>s\<close>, \<^verbatim>\<open>csvEscape\<close> returns \<open>s\<close> unchanged when \<open>s\<close> contains
  no comma, double quote, line feed or carriage return, and otherwise returns \<open>s\<close> wrapped in
  double quotes with every double quote inside it doubled. In particular
  \<^verbatim>\<open>hello, world\<close> becomes \<^verbatim>\<open>"hello, world"\<close>, \<^verbatim>\<open>say "hi"\<close> becomes
  \<^verbatim>\<open>"say ""hi"""\<close>, and \<^verbatim>\<open>hello\<close> stays \<^verbatim>\<open>hello\<close>.
\<close>

theorem C7_csvEscape:
  "csvEscape s =
     (if \<exists>c \<in> set s. c = comma \<or> c = dquote \<or> c = LF \<or> c = CR
      then [dquote] @ concat (map (\<lambda>c. if c = dquote then [dquote, dquote] else [c]) s)
             @ [dquote]
      else s)
   \<and> csvEscape ''hello, world'' = [dquote] @ ''hello, world'' @ [dquote]
   \<and> csvEscape (''say '' @ [dquote] @ ''hi'' @ [dquote])
       = [dquote] @ ''say '' @ [dquote, dquote] @ ''hi'' @ [dquote, dquote] @ [dquote]
   \<and> csvEscape ''hello'' = ''hello''"
  using csvEscape_general [of s] csvEscape_examples by simp

theorem C7_csvEscape_witness:
  "(\<exists>c \<in> set (''a'' @ [dquote] @ ''b''). c = comma \<or> c = dquote \<or> c = LF \<or> c = CR)
   \<and> csvEscape (''a'' @ [dquote] @ ''b'') = [dquote] @ ''a'' @ [dquote, dquote] @ ''b'' @ [dquote]
   \<and> \<not> (\<exists>c \<in> set ''plain''. c = comma \<or> c = dquote \<or> c = LF \<or> c = CR)
   \<and> csvEscape ''plain'' = ''plain''"
  using C7_csvEscape [of "''a'' @ [dquote] @ ''b''"] C7_csvEscape [of "''plain''"]
  by simp

section \<open>Claims about the byte-size formatter\<close>

text \<open>
  Claim C8 says that \<^verbatim>\<open>formatBytes\<close> renders every non-negative byte count with one decimal
  place in the largest binary unit whose threshold it meets, B below 1024. The code prints a
  count below 1024 with \<^verbatim>\<open>"%d B"\<close>, as a whole number without a decimal place (its test
  expects \<^verbatim>\<open>"500 B"\<close>): \<^verbatim>\<open>formatBytes 500\<close> is \<^verbatim>\<open>500 B\<close> and holds no decimal point.
\<close>

theorem C8_formatBytes_counterexample:
  "formatBytes 500 = ''500 B'' \<and> CHR ''.'' \<notin> set (formatBytes 500)"
  by code_simp

text \<open>
  Claim C8, amended. For every non-negative byte count \<open>b\<close>, \<^verbatim>\<open>formatBytes\<close> uses binary
  units: below 1024 it prints \<open>b\<close> as a whole number of bytes, without a decimal place,
  followed by \<^verbatim>\<open>" B"\<close>; from 1024 on it prints, in the largest of the units KB (\<open>2\<^sup>1\<^sup>0\<close>),
  MB (\<open>2\<^sup>2\<^sup>0\<close>), GB (\<open>2\<^sup>3\<^sup>0\<close>) whose threshold \<open>b\<close> meets, a number with exactly one
  decimal place: the tenth nearest to \<^verbatim>\<open>float64(b)\<close> divided by the unit (\<open>t\<close> tenths, off by
  at most half a tenth), where \<^verbatim>\<open>float64(b)\<close> is \<open>b\<close> itself below \<open>2\<^sup>5\<^sup>3\<close>.
\<close>

theorem C8_formatBytes:
  assumes "0 \<le> b"
  shows "(b < 2 ^ 10 \<longrightarrow>
            formatBytes b = itoa_nonneg b @ '' B'' \<and> CHR ''.'' \<notin> set (formatBytes b))
       \<and> (2 ^ 10 \<le> b \<and> b < 2 ^ 20 \<longrightarrow>
            (\<exists>t \<ge> 0. formatBytes b
                       = itoa_nonneg (t div 10) @ ''.'' @ [digit_char (t mod 10)] @ '' KB''
                   \<and> 2 * \<bar>10 * float64_of_int b - t * 2 ^ 10\<bar> \<le> 2 ^ 10))
       \<and> (2 ^ 20 \<le> b \<and> b < 2 ^ 30 \<longrightarrow>
            (\<exists>t \<ge> 0. formatBytes b
                       = itoa_nonneg (t div 10) @ ''.'' @ [digit_char (t mod 10)] @ '' MB''
                   \<and> 2 * \<bar>10 * float64_of_int b - t * 2 ^ 20\<bar> \<le> 2 ^ 20))
       \<and> (2 ^ 30 \<le> b \<longrightarrow>
            (\<exists>t \<ge> 0. formatBytes b
                       = itoa_nonneg (t div 10) @ ''.'' @ [digit_char (t mod 10)] @ '' GB''
                   \<and> 2 * \<bar>10 * float64_of_int b - t * 2 ^ 30\<bar> \<le> 2 ^ 30))
       \<and> (b < 2 ^ 53 \<longrightarrow> float64_of_int b = b)"
proof -
  have x: "0 \<le> float64_of_int b"
    using assms by (rule float64_of_int_nonneg)
  have B: "b < 2 ^ 10 \<Longrightarrow>
      formatBytes b = itoa_nonneg b @ '' B'' \<and> CHR ''.'' \<notin> set (formatBytes b)"
    using formatBytes_B [OF assms] by blast
  have K: "2 ^ 10 \<le> b \<and> b < 2 ^ 20 \<Longrightarrow>
      \<exists>t \<ge> 0. formatBytes b = itoa_nonneg (t div 10) @ ''.'' @ [digit_char (t mod 10)] @ '' KB''
             \<and> 2 * \<bar>10 * float64_of_int b - t * 2 ^ 10\<bar> \<le> 2 ^ 10"
    using Sprintf_1f_spec [OF x, of 10] by (auto simp: formatBytes_def)
  have M: "2 ^ 20 \<le> b \<and> b < 2 ^ 30 \<Longrightarrow>
      \<exists>t \<ge> 0. formatBytes b = itoa_nonneg (t div 10) @ ''.'' @ [digit_char (t mod 10)] @ '' MB''
             \<and> 2 * \<bar>10 * float64_of_int b - t * 2 ^ 20\<bar> \<le> 2 ^ 20"
    using Sprintf_1f_spec [OF x, of 20] by (auto simp: formatBytes_def)
  have G: "2 ^ 30 \<le> b \<Longrightarrow>
      \<exists>t \<ge> 0. formatBytes b = itoa_nonneg (t div 10) @ ''.'' @ [digit_char (t mod 10)] @ '' GB''
             \<and> 2 * \<bar>10 * float64_of_int b - t * 2 ^ 30\<bar> \<le> 2 ^ 30"
    using Sprintf_1f_spec [OF x, of 30] by (auto simp: formatBytes_def)
  have E: "b < 2 ^ 53 \<Longrightarrow> float64_of_int b = b"
    using assms by (intro float64_of_int_exact) simp
  from B K M G E show ?thesis by blast
qed

theorem C8_formatBytes_witness:
  "(0 :: int) \<le> 1536 \<and> (2 :: int) ^ 10 \<le> 1536 \<and> (1536 :: int) < 2 ^ 20
   \<and> (\<exists>t \<ge> 0. formatBytes 1536
                = itoa_nonneg (t div 10) @ ''.'' @ [digit_char (t mod 10)] @ '' KB''
              \<and> 2 * \<bar>10 * float64_of_int 1536 - t * 2 ^ 10\<bar> \<le> 2 ^ 10)
   \<and> float64_of_int 1536 = 1536
   \<and> formatBytes 1536 = ''1.5 KB''
   \<and> formatBytes 1048576 = ''1.0 MB''
   \<and> formatBytes 1073741824 = ''1.0 GB''
   \<and> formatBytes 1023 = ''1023 B''"
proof -
  have h: "(0 :: int) \<le> 1536" "(2 :: int) ^ 10 \<le> 1536 \<and> (1536 :: int) < 2 ^ 20"
    "(1536 :: int) < 2 ^ 53"
    by simp_all
  note w = C8_formatBytes [OF h(1)]
  note k = w [THEN conjunct2, THEN conjunct1, THEN mp, OF h(2)]
  note e = w [THEN conjunct2, THEN conjunct2, THEN conjunct2, THEN conjunct2, THEN mp, OF h(3)]
  have v: "formatBytes 1536 = ''1.5 KB''" "formatBytes 1048576 = ''1.0 MB''"
    "formatBytes 1073741824 = ''1.0 GB''" "formatBytes 1023 = ''1023 B''"
    by code_simp+
  from h k e v show ?thesis by blast
qed

section \<open>Claims about attachment results\<close>

text \<open>
  Claim C9. For every attachment-list result without error, in every state of the
  coordinator, \<^verbatim>\<open>Update\<close> replaces the items of the attachment list by the attachments of
  the result and sets the title to their number; nothing else in the state changes.
  The result carries no conversation id (the message \<^verbatim>\<open>attachmentsLoadedMsg\<close> has an
  attachment list and an error only), and no field of the state is compared: the same holds
  after the active conversation has changed.
\<close>

theorem C9_attachments_always_replaced:
  "l_items (attachmentList (fst (Update L m (attachmentsLoadedMsg atts None)))) = atts
   \<and> l_Title (attachmentList (fst (Update L m (attachmentsLoadedMsg atts None))))
       = ''Attachments '' @ emdash @ '' '' @ Sprintf_d (int (length atts)) @ '' files''
   \<and> (fst (Update L m (attachmentsLoadedMsg atts None)))\<lparr>attachmentList := attachmentList m\<rparr> = m
   \<and> l_items (attachmentList (fst (Update L (m\<lparr>activeChatID := other\<rparr>)
                                      (attachmentsLoadedMsg atts None)))) = atts"
  by (simp only: Update_attachmentsLoaded on_attachmentsLoaded_ok simp_thms)

theorem C9_attachments_always_replaced_witness:
  "l_items (attachmentList (fst (Update simple_lib model_in_thread
              (attachmentsLoadedMsg [\<lparr>ca_ROWID = 4, ca_FilePath = ''/tmp/a.pdf'',
                  ca_Filename = ''a.pdf'', ca_MimeType = ''application/pdf'',
                  ca_TypeLabel = ''PDF'', ca_Size = 12, ca_Date = Time_zero,
                  ca_IsFromMe = False, ca_Sender = ''x''\<rparr>] None))))
     = [\<lparr>ca_ROWID = 4, ca_FilePath = ''/tmp/a.pdf'', ca_Filename = ''a.pdf'',
         ca_MimeType = ''application/pdf'', ca_TypeLabel = ''PDF'', ca_Size = 12,
         ca_Date = Time_zero, ca_IsFromMe = False, ca_Sender = ''x''\<rparr>]"
  using C9_attachments_always_replaced [of simple_lib model_in_thread _ 5]
  by simp

section \<open>Claims about the page size\<close>

text \<open>
  Claim C10. For every store, conversation id and cursor, \<^verbatim>\<open>FetchMessages\<close> with a page size
  that is zero or negative gives the same result as with the fixed default page size of 200
  (\<^verbatim>\<open>messagesPageSize\<close>).
\<close>

theorem C10_default_page_size:
  "pageSize \<le> 0 \<Longrightarrow>
     FetchMessages st chatID cursor pageSize = FetchMessages st chatID cursor 200
     \<and> messagesPageSize = 200"
  by (simp add: FetchMessages_def messagesPageSize_def)

theorem C10_default_page_size_witness:
  "(- 3 :: int) \<le> 0
   \<and> FetchMessages store_in_step 1 7 (- 3) = FetchMessages store_in_step 1 7 200
   \<and> map_sum id (map ROWID) (FetchMessages store_in_step 1 7 (- 3)) = Inr [1, 2, 5]
   \<and> map_sum id (map ROWID) (FetchMessages store_in_step 1 7 0) = Inr [1, 2, 5]
   \<and> map_sum id (map ROWID) (FetchMessages store_in_step 1 7 2) = Inr [2, 5]"
proof -
  have h: "(- 3 :: int) \<le> 0" by simp
  have v: "map_sum id (map ROWID) (FetchMessages store_in_step 1 7 200) = Inr [1, 2, 5]"
    "map_sum id (map ROWID) (FetchMessages store_in_step 1 7 2) = Inr [2, 5]"
    "map_sum id (map ROWID) (FetchMessages store_in_step 1 7 0) = Inr [1, 2, 5]"
    by code_simp+
  note w = C10_default_page_size [OF h, of store_in_step 1 7, THEN conjunct1]
  from h w v show ?thesis by simp
qed


end
